theory Spec2Isabelle
  imports
    Main
    "HOL-Library.Multiset"
    "HOL-Library.Char_ord"
    "HOL-Library.List_Lexorder"
    "HOL-Library.Product_Lexorder"
begin

section \<open>Python values\<close>

text \<open>
  A Python \<open>str\<close> is a list of code points. The model reads a \<^typ>\<open>char\<close> as a code
  point below 256. On that range \<open>str.lower\<close> moves \<open>A\<close>..\<open>Z\<close> (65..90) and the
  Latin-1 capitals (192..222, the multiplication sign 215 apart) up by 32 and leaves
  every other code point alone; it never changes the length of the string.
\<close>

definition lower_char :: "char \<Rightarrow> char" where
  "lower_char c =
     (let n = (of_char c :: nat)
      in if (65 \<le> n \<and> n \<le> 90) \<or> (192 \<le> n \<and> n \<le> 222 \<and> n \<noteq> 215)
         then char_of (n + 32) else c)"

definition lower :: "string \<Rightarrow> string" where
  "lower s = map lower_char s"

text \<open>
  The values a cell of a data frame, or an argument of the functions below, can hold:
  \<open>None\<close>, a \<open>str\<close> or an \<open>int\<close>.
\<close>

datatype cell = Null | Str string | Num int

datatype error = KeyError string | AttributeError | TypeError

text \<open>Truth value of a Python object, as \<open>or\<close> and \<open>if\<close> test it.\<close>

fun truthy :: "cell \<Rightarrow> bool" where
  "truthy Null = False"
| "truthy (Str s) = (s \<noteq> [])"
| "truthy (Num n) = (n \<noteq> 0)"

text \<open>The method call \<open>x.lower()\<close>: only a \<open>str\<close> has the attribute.\<close>

fun py_lower :: "cell \<Rightarrow> error + cell" where
  "py_lower (Str s) = Inr (Str (lower s))"
| "py_lower Null = Inl AttributeError"
| "py_lower (Num n) = Inl AttributeError"

text \<open>
  \<^verbatim>\<open>def normalize_address(addr): return (addr or "").lower()\<close>
\<close>

definition normalize_address :: "cell \<Rightarrow> error + cell" where
  "normalize_address addr = py_lower (if truthy addr then addr else Str [])"

section \<open>Data frames\<close>

text \<open>
  A data frame is a list of column labels and a list of rows; a row gives the cell under
  each label, and only the cells under the frame's labels are part of the frame
  (\<open>records\<close>).
\<close>

record frame =
  columns :: "string list"
  rows :: "(string \<Rightarrow> cell) list"

definition records :: "frame \<Rightarrow> cell list list" where
  "records df = map (\<lambda>r. map r (columns df)) (rows df)"

text \<open>\<open>df[c]\<close>: the column as a series, \<open>KeyError\<close> when there is no such label.\<close>

definition getitem :: "frame \<Rightarrow> string \<Rightarrow> error + cell list" where
  "getitem df c =
     (if c \<in> set (columns df) then Inr (map (\<lambda>r. r c) (rows df)) else Inl (KeyError c))"

text \<open>\<open>df[c] = vs\<close>: replaces the column, or appends it as the last one.\<close>

definition setitem :: "frame \<Rightarrow> string \<Rightarrow> cell list \<Rightarrow> frame" where
  "setitem df c vs =
     \<lparr>columns = (if c \<in> set (columns df) then columns df else columns df @ [c]),
      rows = map2 (\<lambda>r v. r(c := v)) (rows df) vs\<rparr>"

text \<open>\<open>series.map(f)\<close>: applies \<open>f\<close> to every cell in turn; the first exception ends it.\<close>

fun series_map :: "(cell \<Rightarrow> error + cell) \<Rightarrow> cell list \<Rightarrow> error + cell list" where
  "series_map f [] = Inr []"
| "series_map f (v # vs) =
     (case f v of
        Inl e \<Rightarrow> Inl e
      | Inr w \<Rightarrow> (case series_map f vs of Inl e \<Rightarrow> Inl e | Inr ws \<Rightarrow> Inr (w # ws)))"

text \<open>Selection by a boolean mask, of a series or of the rows of a frame.\<close>

definition masked :: "bool list \<Rightarrow> 'a list \<Rightarrow> 'a list" where
  "masked msk xs = map snd (filter fst (zip msk xs))"

text \<open>\<open>df.loc[mask, c]\<close>\<close>

definition loc :: "frame \<Rightarrow> bool list \<Rightarrow> string \<Rightarrow> error + cell list" where
  "loc df msk c = (case getitem df c of Inl e \<Rightarrow> Inl e | Inr vs \<Rightarrow> Inr (masked msk vs))"

text \<open>\<open>series.dropna()\<close>: drops the missing values.\<close>

definition dropna :: "cell list \<Rightarrow> cell list" where
  "dropna vs = filter (\<lambda>v. v \<noteq> Null) vs"

text \<open>\<open>series.isin(values)\<close>\<close>

definition isin :: "cell list \<Rightarrow> cell set \<Rightarrow> bool list" where
  "isin vs S = map (\<lambda>v. v \<in> S) vs"

text \<open>\<open>df[mask]\<close>\<close>

definition select_rows :: "frame \<Rightarrow> bool list \<Rightarrow> frame" where
  "select_rows df msk = df\<lparr>rows := masked msk (rows df)\<rparr>"

text \<open>
  \<open>df[[c1, ..., cn]]\<close>: the frame of these columns, in the order asked for;
  \<open>KeyError\<close> when one of them is missing.
\<close>

definition select_columns :: "frame \<Rightarrow> string list \<Rightarrow> error + frame" where
  "select_columns df cs =
     (case filter (\<lambda>c. c \<notin> set (columns df)) cs of
        [] \<Rightarrow> Inr \<lparr>columns = cs,
                  rows = map (\<lambda>r c. if c \<in> set cs then r c else Null) (rows df)\<rparr>
      | c # _ \<Rightarrow> Inl (KeyError c))"

subsection \<open>Sorting\<close>

text \<open>
  Python orders two \<open>str\<close> by code point and two \<open>int\<close> by value, and raises
  \<open>TypeError\<close> when asked to order a \<open>str\<close> and an \<open>int\<close>. \<open>sort_key_of\<close> embeds
  the cells in one linear order that agrees with Python inside each type and puts the
  missing value last; \<open>sort_values\<close> raises before the order between two types is
  ever used.
\<close>

fun sort_key_of :: "cell \<Rightarrow> nat \<times> int \<times> string" where
  "sort_key_of (Num n) = (0, n, [])"
| "sort_key_of (Str s) = (1, 0, s)"
| "sort_key_of Null = (2, 0, [])"

definition cell_le :: "cell \<Rightarrow> cell \<Rightarrow> bool" where
  "cell_le a b = (sort_key_of a \<le> sort_key_of b)"

fun is_str :: "cell \<Rightarrow> bool" where
  "is_str (Str s) = True"
| "is_str Null = False"
| "is_str (Num n) = False"

fun is_num :: "cell \<Rightarrow> bool" where
  "is_num (Num n) = True"
| "is_num Null = False"
| "is_num (Str s) = False"

definition comparable :: "cell list \<Rightarrow> bool" where
  "comparable ks = (list_all is_str ks \<or> list_all is_num ks)"

text \<open>
  \<open>df.sort_values(by)\<close> with pandas' defaults (\<open>ascending=True\<close>,
  \<open>kind='quicksort'\<close>, \<open>na_position='last'\<close>): the rows with a key are reordered by
  the index list that numpy's \<open>argsort\<close> returns for their keys, and the rows without a
  key follow in their original order. \<open>argsort\<close> belongs to numpy, not to this
  repository, and is the parameter \<open>argsort\<close> here. What numpy documents of it is
  \<open>sorting_kernel\<close>: the result is a permutation of the positions that puts the keys in
  ascending order. Only the kinds \<open>'stable'\<close> and \<open>'mergesort'\<close> are documented to
  keep equal keys in their original order (\<open>stable_kernel\<close>), and the source asks for
  neither. The algorithm that numpy runs for the default kind is \<open>npy_aquicksort\<close>
  further down.
\<close>

definition sorting_kernel :: "(cell list \<Rightarrow> nat list) \<Rightarrow> bool" where
  "sorting_kernel argsort =
     (\<forall>ks. mset (argsort ks) = mset [0..<length ks] \<and>
           sorted_wrt cell_le (map (\<lambda>i. ks ! i) (argsort ks)))"

definition stable_kernel :: "(cell list \<Rightarrow> nat list) \<Rightarrow> bool" where
  "stable_kernel argsort =
     (\<forall>ks. argsort ks = sort_key (\<lambda>i. sort_key_of (ks ! i)) [0..<length ks])"

definition sort_values :: "(cell list \<Rightarrow> nat list) \<Rightarrow> frame \<Rightarrow> string \<Rightarrow> error + frame" where
  "sort_values argsort df key =
     (case getitem df key of
        Inl e \<Rightarrow> Inl e
      | Inr k \<Rightarrow>
          (let idx = [0..<length k];
               non_nan_idx = filter (\<lambda>i. k ! i \<noteq> Null) idx;
               nan_idx = filter (\<lambda>i. k ! i = Null) idx;
               non_nans = map (\<lambda>i. k ! i) non_nan_idx
           in if \<not> comparable non_nans then Inl TypeError
              else let indexer = map (\<lambda>j. non_nan_idx ! j) (argsort non_nans) @ nan_idx
                   in Inr (df\<lparr>rows := map (\<lambda>i. rows df ! i) indexer\<rparr>)))"

section \<open>The team-wallet heuristic\<close>

text \<open>Sequencing of two steps, the second skipped when the first raises.\<close>

definition bind_err :: "error + 'a \<Rightarrow> ('a \<Rightarrow> error + 'b) \<Rightarrow> error + 'b" where
  "bind_err m f = (case m of Inl e \<Rightarrow> Inl e | Inr x \<Rightarrow> f x)"

definition zero_address :: string where
  "zero_address = ''0x0000000000000000000000000000000000000000''"

definition evidence_columns :: "string list" where
  "evidence_columns = [''block_signed_at'', ''tx_hash'', ''from'', ''to'', ''value_raw'']"

text \<open>
  \<open>team_like.update(df.loc[df["from_n"] == sender, "to_n"].dropna().tolist())\<close>,
  the statement the source runs once for the creator and once for the token contract.
\<close>

definition received_from :: "frame \<Rightarrow> cell \<Rightarrow> cell set \<Rightarrow> error + cell set" where
  "received_from df sender team_like =
     bind_err (getitem df ''from_n'') (\<lambda>col.
     bind_err (loc df (map (\<lambda>v. v = sender) col) ''to_n'') (\<lambda>got.
     Inr (team_like \<union> set (dropna got))))"

text \<open>
  \<open>infer_team_wallets_from_transfers\<close> of \<open>heuristics.py\<close>, statement by statement, as
  the value it returns or the exception it raises. The working copy \<open>df\<close> is a value
  here; \<open>infer_team_wallets_from_transfers_st\<close> below runs the same statements on a
  store of frame objects.
\<close>

definition infer_team_wallets_from_transfers ::
  "(cell list \<Rightarrow> nat list) \<Rightarrow> frame \<Rightarrow> cell \<Rightarrow> cell \<Rightarrow> error + (cell set \<times> frame)" where
  "infer_team_wallets_from_transfers argsort transfers_df token_contract creator_addr =
     bind_err (getitem transfers_df ''from'') (\<lambda>from_col.
     bind_err (series_map normalize_address from_col) (\<lambda>from_n.
     bind_err (getitem (setitem transfers_df ''from_n'' from_n) ''to'') (\<lambda>to_col.
     bind_err (series_map normalize_address to_col) (\<lambda>to_n.
     let df = setitem (setitem transfers_df ''from_n'' from_n) ''to_n'' to_n in
     bind_err (if truthy creator_addr then normalize_address creator_addr else Inr Null) (\<lambda>creator_n.
     bind_err (normalize_address token_contract) (\<lambda>token_n.
     bind_err (if truthy creator_n then received_from df creator_n {} else Inr {}) (\<lambda>team_like.
     bind_err (received_from df token_n team_like) (\<lambda>team_like.
     let team_like = team_like - {Str zero_address} in
     bind_err (getitem df ''to_n'') (\<lambda>col.
     bind_err (select_columns (select_rows df (isin col team_like)) evidence_columns) (\<lambda>out.
     bind_err (sort_values argsort out ''block_signed_at'') (\<lambda>out.
     Inr (team_like, out))))))))))))"

section \<open>The sort numpy runs for \<open>kind='quicksort'\<close>\<close>

text \<open>
  The \<open>block_signed_at\<close> column holds Python strings, so its numpy array has the object
  dtype, and for it \<open>argsort(kind='quicksort')\<close> runs numpy's generic introsort
  \<open>npy_aquicksort\<close> (\<open>npysort/quicksort.cpp\<close>), which is not part of this repository. It
  sorts the index array \<open>tosort\<close>, comparing the keys the indices point to: segments of
  more than 17 indices are partitioned around the median of their first, middle and
  last key, the others are sorted by insertion, and a segment taken from the stack
  after the depth budget \<open>2 * floor(log2 n)\<close> is used up is sorted by \<open>npy_aheapsort\<close>.
  The functions below work on one segment, the list \<open>a\<close> of its indices, so that the
  pointers \<open>pl\<close> and \<open>pr\<close> of the C code are the positions \<open>0\<close> and \<open>length a - 1\<close>.
\<close>

definition cell_less :: "cell \<Rightarrow> cell \<Rightarrow> bool" where
  "cell_less a b = (sort_key_of a < sort_key_of b)"

definition swap :: "nat list \<Rightarrow> nat \<Rightarrow> nat \<Rightarrow> nat list" where
  "swap a i j = a[i := a ! j, j := a ! i]"

text \<open>
  Insertion sort: \<^verbatim>\<open>for (pi = pl + 1; pi <= pr; ++pi) { vi = *pi; pj = pi; pk = pi - 1;
  while (pj > pl && LT(v[vi], v[*pk])) { *pj-- = *pk--; } *pj = vi; }\<close>
\<close>

fun shift :: "cell list \<Rightarrow> nat list \<Rightarrow> nat \<Rightarrow> nat \<Rightarrow> nat list" where
  "shift v a vi pj =
     (if 0 < pj \<and> cell_less (v ! vi) (v ! (a ! (pj - 1)))
      then shift v (a[pj := a ! (pj - 1)]) vi (pj - 1)
      else a[pj := vi])"

declare shift.simps [simp del]

definition insertion :: "cell list \<Rightarrow> nat list \<Rightarrow> nat list" where
  "insertion v a = fold (\<lambda>pi a. shift v a (a ! pi) pi) [1..<length a] a"

text \<open>
  The partition. \<^verbatim>\<open>do { ++pi; } while (LT(v[*pi], vp));\<close> and
  \<^verbatim>\<open>do { --pj; } while (LT(vp, v[*pj]));\<close> are \<open>scan_up\<close> and \<open>scan_down\<close> started one
  position further; the pivot stored at \<open>pr - 1\<close> and the key at \<open>pl\<close> stop them inside
  the segment.
\<close>

function scan_up :: "cell list \<Rightarrow> nat list \<Rightarrow> cell \<Rightarrow> nat \<Rightarrow> nat" where
  "scan_up v a vp i =
     (if i < length a \<and> cell_less (v ! (a ! i)) vp then scan_up v a vp (i + 1) else i)"
  by pat_completeness auto
termination
  by (relation "measure (\<lambda>(v, a, vp, i). length a - i)") auto

declare scan_up.simps [simp del]

fun scan_down :: "cell list \<Rightarrow> nat list \<Rightarrow> cell \<Rightarrow> nat \<Rightarrow> nat" where
  "scan_down v a vp j =
     (if 0 < j \<and> cell_less vp (v ! (a ! j)) then scan_down v a vp (j - 1) else j)"

declare scan_down.simps [simp del]

function part_loop :: "cell list \<Rightarrow> cell \<Rightarrow> nat list \<Rightarrow> nat \<Rightarrow> nat \<Rightarrow> nat list \<times> nat" where
  "part_loop v vp a pi pj =
     (let pi' = scan_up v a vp (pi + 1); pj' = scan_down v a vp (pj - 1)
      in if pj' \<le> pi' then (a, pi') else part_loop v vp (swap a pi' pj') pi' pj')"
  by pat_completeness auto
termination
proof (relation "measure (\<lambda>(v, vp, a, pi, pj). pj - pi)")
  show "wf (measure (\<lambda>(v, vp, a, pi, pj). pj - pi))" by simp
next
  fix v vp a pi pj x xa
  assume x: "x = scan_up v a vp (pi + 1)" and xa: "xa = scan_down v a vp (pj - 1)"
    and less: "\<not> xa \<le> x"
  have up: "i \<le> scan_up v a vp i" for i
    by (induction v a vp i rule: scan_up.induct) (subst scan_up.simps, auto)
  have down: "scan_down v a vp j \<le> j" for j
    by (induction v a vp j rule: scan_down.induct) (subst scan_down.simps, auto)
  have "pi + 1 \<le> x" and "xa \<le> pj - 1" and "x < xa"
    using x xa less up [of "pi + 1"] down [of "pj - 1"] by simp_all
  hence "xa - x < pj - pi" by arith
  thus "((v, vp, swap a x xa, x, xa), (v, vp, a, pi, pj)) \<in>
      measure (\<lambda>(v, vp, a, pi, pj). pj - pi)"
    by simp
qed

declare part_loop.simps [simp del]

definition partition :: "cell list \<Rightarrow> nat list \<Rightarrow> nat list \<times> nat" where
  "partition v a =
     (let pr = length a - 1;
          pm = pr div 2;
          a = (if cell_less (v ! (a ! pm)) (v ! (a ! 0)) then swap a pm 0 else a);
          a = (if cell_less (v ! (a ! pr)) (v ! (a ! pm)) then swap a pr pm else a);
          a = (if cell_less (v ! (a ! pm)) (v ! (a ! 0)) then swap a pm 0 else a);
          vp = v ! (a ! pm);
          a = swap a pm (pr - 1);
          (a, pi) = part_loop v vp a 0 (pr - 1)
      in (swap a pi (pr - 1), pi))"

text \<open>
  \<open>npy_aheapsort\<close>, with the one-based positions of the C code: \<open>a[j]\<close> there is
  \<open>a ! (j - 1)\<close> here. \<open>sift\<close> is the inner loop
  \<^verbatim>\<open>for (i = l, j = l << 1; j <= n;) { ... } a[i] = tmp;\<close>
\<close>

function sift :: "cell list \<Rightarrow> nat list \<Rightarrow> nat \<Rightarrow> nat \<Rightarrow> nat \<Rightarrow> nat \<Rightarrow> nat list" where
  "sift v a tmp i j n =
     (if 0 < j \<and> j \<le> n
      then (let j = (if j < n \<and> cell_less (v ! (a ! (j - 1))) (v ! (a ! j)) then j + 1 else j)
            in if cell_less (v ! tmp) (v ! (a ! (j - 1)))
               then sift v (a[i - 1 := a ! (j - 1)]) tmp j (j + j) n
               else a[i - 1 := tmp])
      else a[i - 1 := tmp])"
  by pat_completeness auto
termination
  by (relation "measure (\<lambda>(v, a, tmp, i, j, n). n + 1 - j)") auto

declare sift.simps [simp del]

definition aheapsort :: "cell list \<Rightarrow> nat list \<Rightarrow> nat list" where
  "aheapsort v a =
     (let n = length a;
          a = fold (\<lambda>l a. sift v a (a ! (l - 1)) l (2 * l) n) (rev [1..<n div 2 + 1]) a
      in fold (\<lambda>m a. sift v (a[m - 1 := a ! 0]) (a ! (m - 1)) 1 2 (m - 1)) (rev [2..<n + 1]) a)"

text \<open>\<open>npy_get_msb\<close>: the position of the highest bit.\<close>

fun get_msb :: "nat \<Rightarrow> nat" where
  "get_msb n = (if n < 2 then 0 else 1 + get_msb (n div 2))"

declare get_msb.simps [simp del]

text \<open>
  The main loop on one segment. \<open>check\<close> says that the segment comes from the stack,
  where the depth budget is tested; the smaller part of a partition is continued
  without the test and the larger one is pushed. The bounds on \<open>pi\<close> hold after every
  partition of numpy; they make the recursion well-founded here.
\<close>

function aquicksort :: "cell list \<Rightarrow> nat list \<Rightarrow> int \<Rightarrow> bool \<Rightarrow> nat list" where
  "aquicksort v a cdepth check =
     (if check \<and> cdepth < 0 then aheapsort v a
      else if 16 < length a - 1
      then (case partition v a of
              (a', pi) \<Rightarrow>
                if pi < length a' \<and> length a' = length a
                then (if pi < length a - 1 - pi
                      then aquicksort v (take pi a') (cdepth - 1) False @
                           a' ! pi # aquicksort v (drop (pi + 1) a') (cdepth - 1) True
                      else aquicksort v (take pi a') (cdepth - 1) True @
                           a' ! pi # aquicksort v (drop (pi + 1) a') (cdepth - 1) False)
                else a')
      else insertion v a)"
  by pat_completeness auto
termination
  by (relation "measure (\<lambda>(v, a, cdepth, check). length a)") auto

declare aquicksort.simps [simp del]

definition npy_aquicksort :: "cell list \<Rightarrow> nat list" where
  "npy_aquicksort ks = aquicksort ks [0..<length ks] (2 * int (get_msb (length ks))) True"

section \<open>The same function on a store of frame objects\<close>

text \<open>
  A pandas frame is a mutable object and the caller's ledger is passed by reference. The
  store is the list of the frame objects that exist, a reference is a position in it.
  \<open>copy\<close>, \<open>df[mask]\<close>, \<open>df[[...]]\<close> and \<open>sort_values\<close> create a new object;
  \<open>df[c] = vs\<close> changes the object \<open>df\<close> refers to. A step returns its value or its
  exception together with the store it leaves behind.
\<close>

type_synonym store = "frame list"

definition bind_st ::
  "(error + 'a) \<times> store \<Rightarrow> ('a \<Rightarrow> store \<Rightarrow> (error + 'b) \<times> store) \<Rightarrow> (error + 'b) \<times> store" where
  "bind_st m f = (case fst m of Inl e \<Rightarrow> (Inl e, snd m) | Inr x \<Rightarrow> f x (snd m))"

definition new_frame :: "store \<Rightarrow> error + frame \<Rightarrow> (error + nat) \<times> store" where
  "new_frame s r = (case r of Inl e \<Rightarrow> (Inl e, s) | Inr f \<Rightarrow> (Inr (length s), s @ [f]))"

definition copy_st :: "store \<Rightarrow> nat \<Rightarrow> (error + nat) \<times> store" where
  "copy_st s df = new_frame s (Inr (s ! df))"

definition setitem_st :: "store \<Rightarrow> nat \<Rightarrow> string \<Rightarrow> cell list \<Rightarrow> (error + unit) \<times> store" where
  "setitem_st s df c vs = (Inr (), s[df := setitem (s ! df) c vs])"

definition received_from_st ::
  "store \<Rightarrow> nat \<Rightarrow> cell \<Rightarrow> cell set \<Rightarrow> (error + cell set) \<times> store" where
  "received_from_st s df sender team_like =
     bind_st (getitem (s ! df) ''from_n'', s) (\<lambda>col s.
     bind_st (loc (s ! df) (map (\<lambda>v. v = sender) col) ''to_n'', s) (\<lambda>got s.
     (Inr (team_like \<union> set (dropna got)), s)))"

definition infer_team_wallets_from_transfers_st ::
  "(cell list \<Rightarrow> nat list) \<Rightarrow> store \<Rightarrow> nat \<Rightarrow> cell \<Rightarrow> cell \<Rightarrow> (error + (cell set \<times> nat)) \<times> store" where
  "infer_team_wallets_from_transfers_st argsort s transfers_df token_contract creator_addr =
     bind_st (copy_st s transfers_df) (\<lambda>df s.
     bind_st (getitem (s ! df) ''from'', s) (\<lambda>from_col s.
     bind_st (series_map normalize_address from_col, s) (\<lambda>from_n s.
     bind_st (setitem_st s df ''from_n'' from_n) (\<lambda>_ s.
     bind_st (getitem (s ! df) ''to'', s) (\<lambda>to_col s.
     bind_st (series_map normalize_address to_col, s) (\<lambda>to_n s.
     bind_st (setitem_st s df ''to_n'' to_n) (\<lambda>_ s.
     bind_st (if truthy creator_addr then normalize_address creator_addr else Inr Null, s) (\<lambda>creator_n s.
     bind_st (normalize_address token_contract, s) (\<lambda>token_n s.
     bind_st (if truthy creator_n then received_from_st s df creator_n {} else (Inr {}, s)) (\<lambda>team_like s.
     bind_st (received_from_st s df token_n team_like) (\<lambda>team_like s.
     let team_like = team_like - {Str zero_address} in
     bind_st (getitem (s ! df) ''to_n'', s) (\<lambda>col s.
     bind_st (new_frame s (Inr (select_rows (s ! df) (isin col team_like)))) (\<lambda>sel s.
     bind_st (copy_st s sel) (\<lambda>out s.
     bind_st (new_frame s (select_columns (s ! out) evidence_columns)) (\<lambda>out s.
     bind_st (new_frame s (sort_values argsort (s ! out) ''block_signed_at'')) (\<lambda>out s.
     (Inr (team_like, out), s)))))))))))))))))"

section \<open>Notions used in the proofs\<close>

text \<open>
  What \<open>normalize_address\<close> returns when it returns, and the values on which it does.
\<close>

definition norm_cell :: "cell \<Rightarrow> cell" where
  "norm_cell v = (case v of Str s \<Rightarrow> Str (lower s) | _ \<Rightarrow> Str [])"

definition normalizable :: "cell \<Rightarrow> bool" where
  "normalizable v = (is_str v \<or> \<not> truthy v)"

text \<open>A row of the working copy, with its two derived columns, and a row of the result.\<close>

definition working_row :: "(string \<Rightarrow> cell) \<Rightarrow> string \<Rightarrow> cell" where
  "working_row r = r(''from_n'' := norm_cell (r ''from''), ''to_n'' := norm_cell (r ''to''))"

definition working_columns :: "string list \<Rightarrow> string list" where
  "working_columns cs =
     (let cs1 = (if ''from_n'' \<in> set cs then cs else cs @ [''from_n''])
      in if ''to_n'' \<in> set cs1 then cs1 else cs1 @ [''to_n''])"

definition project :: "(string \<Rightarrow> cell) \<Rightarrow> string \<Rightarrow> cell" where
  "project r = (\<lambda>c. if c \<in> set evidence_columns then r c else Null)"

text \<open>The recipients of one sender, and the set the function builds from them.\<close>

definition senders_to :: "(string \<Rightarrow> cell) list \<Rightarrow> cell \<Rightarrow> cell set" where
  "senders_to rs s =
     set (map (\<lambda>r. norm_cell (r ''to'')) (filter (\<lambda>r. norm_cell (r ''from'') = s) rs))"

definition team_of :: "(string \<Rightarrow> cell) list \<Rightarrow> cell \<Rightarrow> cell \<Rightarrow> cell set" where
  "team_of rs t c =
     ((if truthy c then senders_to rs (norm_cell c) else {}) \<union> senders_to rs (norm_cell t))
       - {Str zero_address}"

text \<open>The inputs on which every step before the sort goes through.\<close>

definition accepts :: "frame \<Rightarrow> cell \<Rightarrow> cell \<Rightarrow> bool" where
  "accepts df t c =
     (set evidence_columns \<subseteq> set (columns df) \<and>
      list_all (\<lambda>r. normalizable (r ''from'')) (rows df) \<and>
      list_all (\<lambda>r. normalizable (r ''to'')) (rows df) \<and>
      (truthy c \<longrightarrow> is_str c) \<and> normalizable t)"

definition selected :: "frame \<Rightarrow> cell \<Rightarrow> cell \<Rightarrow> frame" where
  "selected df t c =
     \<lparr>columns = evidence_columns,
      rows = map project
        (filter (\<lambda>r. norm_cell (r ''to'') \<in> team_of (rows df) t c) (rows df))\<rparr>"

text \<open>A stable sorting kernel: insertion sort of the positions by key.\<close>

definition stable_argsort :: "cell list \<Rightarrow> nat list" where
  "stable_argsort ks = sort_key (\<lambda>i. sort_key_of (ks ! i)) [0..<length ks]"

text \<open>
  What the caller holds after a run on the store: the exception, or the set and the
  frame that the returned reference points to.
\<close>

definition returned :: "(error + (cell set \<times> nat)) \<times> store \<Rightarrow> error + (cell set \<times> frame)" where
  "returned m = (case fst m of Inl e \<Rightarrow> Inl e | Inr (team, out) \<Rightarrow> Inr (team, snd m ! out))"

text \<open>A store keeps the objects it had: it may only grow.\<close>

definition extends :: "store \<Rightarrow> store \<Rightarrow> bool" where
  "extends s0 s = (length s0 \<le> length s \<and> take (length s0) s = s0)"

text \<open>The order in which \<open>sort_values\<close> takes the rows, for the keys \<open>k\<close>.\<close>

definition indexer_of :: "(cell list \<Rightarrow> nat list) \<Rightarrow> cell list \<Rightarrow> nat list" where
  "indexer_of K k =
     (let idx = [0..<length k];
          non_nan_idx = filter (\<lambda>i. k ! i \<noteq> Null) idx;
          nan_idx = filter (\<lambda>i. k ! i = Null) idx
      in map (\<lambda>j. non_nan_idx ! j) (K (map (\<lambda>i. k ! i) non_nan_idx)) @ nan_idx)"

section \<open>Ledgers used as examples\<close>

text \<open>
  A row as \<open>fetch_token_transfers_covalent\<close> builds it, and the frame \<open>pd.DataFrame(rows)\<close>
  of such rows.
\<close>

definition transfer :: "cell \<Rightarrow> cell \<Rightarrow> cell \<Rightarrow> cell \<Rightarrow> cell \<Rightarrow> string \<Rightarrow> cell" where
  "transfer ts tx fr to v =
     (\<lambda>_. Null)(''block_signed_at'' := ts, ''tx_hash'' := tx, ''from'' := fr, ''to'' := to,
       ''value_raw'' := v)"

definition ledger :: "(string \<Rightarrow> cell) list \<Rightarrow> frame" where
  "ledger rs = \<lparr>columns = evidence_columns, rows = rs\<rparr>"

definition no_evidence :: frame where
  "no_evidence = \<lparr>columns = evidence_columns, rows = []\<rparr>"

text \<open>The creator burns one token and pays one wallet.\<close>

definition burn_ledger :: frame where
  "burn_ledger = ledger
     [transfer (Str ''t1'') (Str ''h1'') (Str ''0xC1'')
        (Str ''0X0000000000000000000000000000000000000000'') (Num 1),
      transfer (Str ''t2'') (Str ''h2'') (Str ''0xC1'') (Str ''0xA1'') (Num 5)]"

text \<open>A transfer from the creator whose recipient could not be decoded.\<close>

definition null_to_row :: "string \<Rightarrow> cell" where
  "null_to_row = transfer (Str ''t1'') (Str ''h1'') (Str ''0xC1'') Null (Num 7)"

text \<open>Rows whose sender is missing or empty.\<close>

definition no_sender_ledger :: frame where
  "no_sender_ledger = ledger
     [transfer (Str ''t1'') (Str ''h1'') Null (Str ''0xA1'') (Num 1),
      transfer (Str ''t2'') (Str ''h2'') (Str []) (Str ''0xB2'') (Num 2)]"

text \<open>The token contract sends to the zero address.\<close>

definition mint_burn_ledger :: frame where
  "mint_burn_ledger = ledger
     [transfer (Str ''t1'') (Str ''h1'') (Str ''0xT0'') (Str zero_address) (Num 1)]"

text \<open>
  Scenario B of the specification: the contract pays \<open>0xA1\<close>, which pays \<open>0xB2\<close>;
  a third event could not be decoded and has neither sender nor recipient.
\<close>

definition scenario_b_row :: "string \<Rightarrow> cell" where
  "scenario_b_row = transfer (Str ''t1'') (Str ''h1'') (Str ''0xT0'') (Str ''0xA1'') (Num 50)"

definition scenario_b :: frame where
  "scenario_b = ledger
     [scenario_b_row,
      transfer (Str ''t2'') (Str ''h2'') (Str ''0xA1'') (Str ''0xB2'') (Num 10),
      transfer (Str ''t3'') (Str ''h3'') Null Null Null]"

text \<open>
  Eighteen transfers of one block, all from the creator to one wallet, and a ledger
  that is not in the order of its timestamps.
\<close>

definition batch_row :: "string \<Rightarrow> string \<Rightarrow> cell" where
  "batch_row h = transfer (Str ''t1'') (Str h) (Str ''0xC1'') (Str ''0xA1'') (Num 1)"

definition batch_ledger :: frame where
  "batch_ledger = ledger (map batch_row
     [''h00'', ''h01'', ''h02'', ''h03'', ''h04'', ''h05'', ''h06'', ''h07'', ''h08'',
      ''h09'', ''h10'', ''h11'', ''h12'', ''h13'', ''h14'', ''h15'', ''h16'', ''h17''])"

definition batch_evidence :: frame where
  "batch_evidence = \<lparr>columns = evidence_columns, rows = map (\<lambda>h. project (batch_row h))
     [''h00'', ''h15'', ''h14'', ''h13'', ''h12'', ''h11'', ''h10'', ''h09'', ''h08'',
      ''h07'', ''h06'', ''h05'', ''h04'', ''h03'', ''h02'', ''h01'', ''h16'', ''h17'']\<rparr>"

definition late_row :: "string \<Rightarrow> cell" where
  "late_row = transfer (Str ''t2'') (Str ''h3'') (Str ''0xT0'') (Str ''0xB2'') (Num 3)"

definition early_row :: "string \<Rightarrow> cell" where
  "early_row = transfer (Str ''t1'') (Str ''h4'') (Str ''0xC1'') (Str ''0xA1'') (Num 4)"

definition outsider_row :: "string \<Rightarrow> cell" where
  "outsider_row = transfer (Str ''t0'') (Str ''h5'') (Str ''0xA1'') (Str ''0xC1'') (Num 5)"

definition unordered_ledger :: frame where
  "unordered_ledger = ledger [late_row, outsider_row, early_row]"

definition unordered_evidence :: frame where
  "unordered_evidence =
     \<lparr>columns = evidence_columns, rows = [project early_row, project late_row]\<rparr>"

section \<open>The contract rule as the specification words it\<close>

text \<open>The values of the calls that returned.\<close>

fun returned_values :: "(error + 'a) list \<Rightarrow> 'a list" where
  "returned_values [] = []"
| "returned_values (Inr x # rs) = x # returned_values rs"
| "returned_values (Inl e # rs) = returned_values rs"

text \<open>
  The set of the normalized, non-null \<open>to\<close> addresses of the records whose normalized
  \<open>from\<close> equals the normalized token contract address.
\<close>

definition contract_recipients :: "frame \<Rightarrow> cell \<Rightarrow> cell set" where
  "contract_recipients df t =
     set (returned_values (map (\<lambda>r. normalize_address (r ''to''))
       (filter (\<lambda>r. r ''to'' \<noteq> Null \<and>
                    normalize_address (r ''from'') = normalize_address t) (rows df))))"

section \<open>Changing the letter case of addresses\<close>

text \<open>
  Two code points are the same letter when one is the lower-case form of the other; two
  cells are case variants when they are strings of the same letters, or equal; two rows
  when they differ in nothing but the case of \<open>from\<close> and \<open>to\<close>.
\<close>

definition same_letter :: "char \<Rightarrow> char \<Rightarrow> bool" where
  "same_letter a b = (a = b \<or> lower_char a = b \<or> a = lower_char b)"

fun case_variant :: "cell \<Rightarrow> cell \<Rightarrow> bool" where
  "case_variant (Str s) (Str s') = list_all2 same_letter s s'"
| "case_variant Null Null = True"
| "case_variant (Num n) (Num m) = (n = m)"
| "case_variant _ _ = False"

definition row_case_variant :: "(string \<Rightarrow> cell) \<Rightarrow> (string \<Rightarrow> cell) \<Rightarrow> bool" where
  "row_case_variant r r' =
     (r' = r(''from'' := r' ''from'', ''to'' := r' ''to'') \<and>
      case_variant (r ''from'') (r' ''from'') \<and> case_variant (r ''to'') (r' ''to''))"

definition ledger_case_variant :: "frame \<Rightarrow> frame \<Rightarrow> bool" where
  "ledger_case_variant df df' =
     (columns df' = columns df \<and> list_all2 row_case_variant (rows df) (rows df'))"

definition upper_case_row :: "string \<Rightarrow> cell" where
  "upper_case_row = transfer (Str ''t1'') (Str ''h1'') (Str ''0xC1'') (Str ''0xA1'') (Num 1)"

definition lower_case_row :: "string \<Rightarrow> cell" where
  "lower_case_row = transfer (Str ''t1'') (Str ''h1'') (Str ''0xc1'') (Str ''0xa1'') (Num 1)"

section \<open>Lemmas about the model\<close>

lemma normalize_address_eq:
  "normalize_address v = (if normalizable v then Inr (norm_cell v) else Inl AttributeError)"
  by (cases v) (simp_all add: normalize_address_def normalizable_def norm_cell_def lower_def)

lemma series_map_normalize:
  "series_map normalize_address vs =
     (if list_all normalizable vs then Inr (map norm_cell vs) else Inl AttributeError)"
  by (induction vs) (simp_all add: normalize_address_eq)

lemma masked_map: "masked (map p xs) (map f xs) = map f (filter p xs)"
  by (induction xs) (simp_all add: masked_def)

lemma norm_cell_not_Null [simp]: "norm_cell v \<noteq> Null"
  by (cases v) (simp_all add: norm_cell_def)

lemma truthy_norm_cell: "is_str c \<Longrightarrow> truthy (norm_cell c) = truthy c"
  by (cases c) (simp_all add: norm_cell_def lower_def)

lemma map2_upd: "map2 (\<lambda>r v. r(a := v)) xs (map f xs) = map (\<lambda>r. r(a := f r)) xs"
  by (induction xs) simp_all

lemma map2_upd2:
  "map2 (\<lambda>r v. r(b := v)) (map (\<lambda>r. r(a := f r)) xs) (map g xs) =
   map (\<lambda>r. r(a := f r, b := g (r))) xs"
  by (induction xs) simp_all

lemma set_working_columns: "set (working_columns cs) = set cs \<union> {''from_n'', ''to_n''}"
  by (auto simp: working_columns_def Let_def)

lemma working_frame:
  "setitem (setitem df ''from_n'' (map (\<lambda>r. norm_cell (r ''from'')) (rows df))) ''to_n''
      (map (\<lambda>r. norm_cell (r ''to'')) (rows df)) =
   \<lparr>columns = working_columns (columns df), rows = map working_row (rows df)\<rparr>"
proof -
  have 1: "setitem df ''from_n'' (map (\<lambda>r. norm_cell (r ''from'')) (rows df)) =
        \<lparr>columns = (if ''from_n'' \<in> set (columns df) then columns df else columns df @ [''from_n'']),
         rows = map (\<lambda>r. r(''from_n'' := norm_cell (r ''from''))) (rows df)\<rparr>"
    using map2_upd [of "''from_n''" "rows df" "\<lambda>r. norm_cell (r ''from'')"]
    by (simp add: setitem_def o_def)
  have 2: "map2 (\<lambda>r v. r(''to_n'' := v)) (map (\<lambda>r. r(''from_n'' := norm_cell (r ''from''))) (rows df))
             (map (\<lambda>r. norm_cell (r ''to'')) (rows df)) = map working_row (rows df)"
    using map2_upd2 [of "''to_n''" "''from_n''" "\<lambda>r. norm_cell (r ''from'')" "rows df" "\<lambda>r. norm_cell (r ''to'')"]
    by (simp add: working_row_def [abs_def])
  show ?thesis
    unfolding 1 using 2 by (simp add: setitem_def working_columns_def Let_def o_def)
qed

lemma working_row_from_n [simp]: "working_row r ''from_n'' = norm_cell (r ''from'')"
  by (simp add: working_row_def)

lemma working_row_to_n [simp]: "working_row r ''to_n'' = norm_cell (r ''to'')"
  by (simp add: working_row_def)

lemma dropna_norm: "dropna (map (\<lambda>r. norm_cell (f r)) xs) = map (\<lambda>r. norm_cell (f r)) xs"
  by (induction xs) (simp_all add: dropna_def)

lemma received_from_working:
  "received_from \<lparr>columns = working_columns cs, rows = map working_row rs\<rparr> s T =
     Inr (T \<union> senders_to rs s)"
proof -
  have "masked (map (\<lambda>v. v = s) (map (\<lambda>r. norm_cell (r ''from'')) rs))
          (map (\<lambda>r. norm_cell (r ''to'')) rs) =
        map (\<lambda>r. norm_cell (r ''to'')) (filter (\<lambda>r. norm_cell (r ''from'') = s) rs)"
    using masked_map [of "\<lambda>r. norm_cell (r ''from'') = s" rs "\<lambda>r. norm_cell (r ''to'')"]
    by (simp add: o_def)
  then show ?thesis
    by (simp add: received_from_def bind_err_def getitem_def loc_def set_working_columns
        o_def senders_to_def dropna_norm)
qed

lemma project_working_row: "project (working_row r) = project r"
  by (rule ext) (simp add: project_def working_row_def evidence_columns_def)

lemma creator_step:
  "truthy c \<longrightarrow> is_str c \<Longrightarrow>
   (if truthy c then normalize_address c else Inr Null) =
     Inr (if truthy c then norm_cell c else Null)"
  by (cases c) (simp_all add: normalize_address_eq normalizable_def)

lemma infer_accepts:
  assumes "accepts df t c"
  shows "infer_team_wallets_from_transfers K df t c =
           bind_err (sort_values K (selected df t c) ''block_signed_at'')
             (\<lambda>out. Inr (team_of (rows df) t c, out))"
proof -
  have cols: "''from'' \<in> set (columns df)" "''to'' \<in> set (columns df)"
    "set evidence_columns \<subseteq> set (working_columns (columns df))"
    using assms by (auto simp: accepts_def evidence_columns_def set_working_columns)
  have nf: "list_all normalizable (map (\<lambda>r. r ''from'') (rows df))"
    and nt: "list_all normalizable (map (\<lambda>r. r ''to'') (rows df))"
    using assms by (simp_all add: accepts_def list_all_iff)
  have cr: "(if truthy c then normalize_address c else Inr Null) =
              Inr (if truthy c then norm_cell c else Null)"
    using assms by (intro creator_step) (simp add: accepts_def)
  have tk: "normalize_address t = Inr (norm_cell t)"
    using assms by (simp add: accepts_def normalize_address_eq)
  have tr: "truthy (if truthy c then norm_cell c else Null) = truthy c"
    using assms by (auto simp: accepts_def truthy_norm_cell)
  have cr': "truthy c \<Longrightarrow> normalize_address c = Inr (norm_cell c)"
    and tr': "truthy c \<Longrightarrow> truthy (norm_cell c)"
    using cr tr by (simp_all split: if_splits)
  have g1: "getitem df ''from'' = Inr (map (\<lambda>r. r ''from'') (rows df))"
    using cols by (simp add: getitem_def)
  have g2: "getitem (setitem df ''from_n'' (map (\<lambda>r. norm_cell (r ''from'')) (rows df))) ''to'' =
              Inr (map (\<lambda>r. r ''to'') (rows df))"
    using cols map2_upd [of "''from_n''" "rows df" "\<lambda>r. norm_cell (r ''from'')"]
    by (simp add: getitem_def setitem_def o_def)
  have sel: "select_columns (select_rows \<lparr>columns = working_columns (columns df),
                 rows = map working_row (rows df)\<rparr>
               (isin (map (\<lambda>r. norm_cell (r ''to'')) (rows df)) (team_of (rows df) t c)))
               evidence_columns = Inr (selected df t c)"
  proof -
    have "masked (map (\<lambda>r. norm_cell (r ''to'') \<in> team_of (rows df) t c) (rows df))
            (map working_row (rows df)) =
          map working_row (filter (\<lambda>r. norm_cell (r ''to'') \<in> team_of (rows df) t c) (rows df))"
      by (rule masked_map)
    moreover have "filter (\<lambda>c. c \<notin> set (working_columns (columns df))) evidence_columns = []"
      using cols(3) by (auto simp: filter_empty_conv)
    ultimately show ?thesis
      by (simp add: select_columns_def select_rows_def isin_def o_def selected_def
          project_working_row [unfolded project_def] project_def [abs_def])
  qed
  have g3: "getitem \<lparr>columns = working_columns (columns df), rows = map working_row (rows df)\<rparr> ''to_n'' =
              Inr (map (\<lambda>r. norm_cell (r ''to'')) (rows df))"
    by (simp add: getitem_def set_working_columns o_def)
  show ?thesis
    unfolding infer_team_wallets_from_transfers_def using sel
    by (cases "truthy c") (simp_all add: g1 g2 g3 series_map_normalize nf nt working_frame cr' tk tr'
        received_from_working bind_err_def Let_def team_of_def o_def)
qed

lemma bind_err_Inr: "bind_err m f = Inr y \<longleftrightarrow> (\<exists>x. m = Inr x \<and> f x = Inr y)"
  by (cases m) (simp_all add: bind_err_def)

lemma getitem_Inr: "getitem df c = Inr vs \<Longrightarrow> c \<in> set (columns df) \<and> vs = map (\<lambda>r. r c) (rows df)"
  by (auto simp: getitem_def split: if_splits)

lemma set_columns_setitem: "set (columns (setitem df c vs)) = insert c (set (columns df))"
  by (auto simp: setitem_def)

lemma columns_select_rows: "columns (select_rows df m) = columns df"
  by (simp add: select_rows_def)

lemma select_columns_Inr: "select_columns df cs = Inr out \<Longrightarrow> set cs \<subseteq> set (columns df)"
  by (auto simp: select_columns_def filter_empty_conv split: list.splits)

lemma series_map_normalize_Inr:
  "series_map normalize_address vs = Inr ws \<Longrightarrow> list_all normalizable vs"
  by (simp add: series_map_normalize split: if_splits)

lemma infer_Inr_accepts:
  assumes "infer_team_wallets_from_transfers K df t c = Inr res"
  shows "accepts df t c"
proof -
  from assms obtain from_col from_n to_col to_n creator_n token_n col out0 T where
    a: "getitem df ''from'' = Inr from_col"
    and b: "series_map normalize_address from_col = Inr from_n"
    and c: "getitem (setitem df ''from_n'' from_n) ''to'' = Inr to_col"
    and d: "series_map normalize_address to_col = Inr to_n"
    and e: "(if truthy c then normalize_address c else Inr Null) = Inr creator_n"
    and f: "normalize_address t = Inr token_n"
    and g: "select_columns (select_rows (setitem (setitem df ''from_n'' from_n) ''to_n'' to_n)
              (isin col T)) evidence_columns = Inr out0"
    unfolding infer_team_wallets_from_transfers_def bind_err_Inr Let_def by blast
  have 1: "list_all (\<lambda>r. normalizable (r ''from'')) (rows df)"
    using getitem_Inr [OF a] series_map_normalize_Inr [OF b] by (simp add: list_all_iff)
  have "to_col = map (\<lambda>r. r ''to'') (rows (setitem df ''from_n'' from_n))"
    using getitem_Inr [OF c] by simp
  moreover have "length from_n = length (rows df)"
    using b getitem_Inr [OF a] by (auto simp: series_map_normalize split: if_splits)
  ultimately have "to_col = map (\<lambda>r. r ''to'') (rows df)"
    by (simp add: setitem_def list_eq_iff_nth_eq)
  then have 2: "list_all (\<lambda>r. normalizable (r ''to'')) (rows df)"
    using series_map_normalize_Inr [OF d] by (simp add: list_all_iff)
  have 3: "truthy c \<longrightarrow> is_str c"
    using e by (cases c) (auto simp: normalize_address_eq normalizable_def split: if_splits)
  have 4: "normalizable t"
    using f by (simp add: normalize_address_eq split: if_splits)
  have "set evidence_columns \<subseteq> insert ''to_n'' (insert ''from_n'' (set (columns df)))"
    using select_columns_Inr [OF g] by (simp add: columns_select_rows set_columns_setitem)
  then have 5: "set evidence_columns \<subseteq> set (columns df)"
    by (auto simp: evidence_columns_def)
  show ?thesis using 1 2 3 4 5 by (simp add: accepts_def)
qed

subsection \<open>Sorting\<close>

lemma cell_le_Null [simp]: "cell_le x Null"
  by (cases x) (simp_all add: cell_le_def)

lemma mset_perm_nth:
  assumes "mset p = mset [0..<length xs]"
  shows "mset (map (\<lambda>i. xs ! i) p) = mset xs"
proof -
  have "mset (map (\<lambda>i. xs ! i) p) = image_mset (\<lambda>i. xs ! i) (mset p)" by simp
  also have "\<dots> = mset (map (\<lambda>i. xs ! i) [0..<length xs])" using assms by simp
  also have "\<dots> = mset xs" by (simp add: map_nth)
  finally show ?thesis .
qed

lemma perm_in_range:
  assumes "mset p = mset [0..<n]" "j \<in> set p"
  shows "j < n"
proof -
  have "set p = set [0..<n]" using assms(1) by (rule mset_eq_setD)
  with assms(2) show ?thesis by simp
qed

lemma non_nans_eq:
  "map (\<lambda>i. xs ! i) (filter (\<lambda>i. xs ! i \<noteq> Null) [0..<length xs]) = filter (\<lambda>v. v \<noteq> Null) xs"
proof -
  have "filter (\<lambda>v. v \<noteq> Null) (map (\<lambda>i. xs ! i) [0..<length xs]) =
        map (\<lambda>i. xs ! i) (filter (\<lambda>i. xs ! i \<noteq> Null) [0..<length xs])"
    by (simp add: filter_map o_def)
  then show ?thesis by (simp add: map_nth)
qed

lemma sort_values_eq:
  "sort_values K df key =
     (if key \<notin> set (columns df) then Inl (KeyError key)
      else if \<not> comparable (filter (\<lambda>v. v \<noteq> Null) (map (\<lambda>r. r key) (rows df))) then Inl TypeError
      else Inr (df\<lparr>rows := map (\<lambda>i. rows df ! i) (indexer_of K (map (\<lambda>r. r key) (rows df)))\<rparr>))"
  using non_nans_eq [of "map (\<lambda>r. r key) (rows df)"]
  by (simp add: sort_values_def getitem_def indexer_of_def Let_def)

lemma mset_filter_split: "mset (filter P xs) + mset (filter (\<lambda>x. \<not> P x) xs) = mset xs"
  by (induction xs) simp_all

lemma indexer_mset:
  assumes "sorting_kernel K"
  shows "mset (indexer_of K k) = mset [0..<length k]"
proof -
  let ?nn = "filter (\<lambda>i. k ! i \<noteq> Null) [0..<length k]"
  let ?na = "filter (\<lambda>i. k ! i = Null) [0..<length k]"
  have "mset (K (map (\<lambda>i. k ! i) ?nn)) = mset [0..<length ?nn]"
    using assms by (simp add: sorting_kernel_def)
  then have "mset (map (\<lambda>j. ?nn ! j) (K (map (\<lambda>i. k ! i) ?nn))) = mset ?nn"
    by (rule mset_perm_nth)
  moreover have "mset ?nn + mset ?na = mset [0..<length k]"
    using mset_filter_split [of "\<lambda>i. k ! i \<noteq> Null" "[0..<length k]"] by simp
  ultimately show ?thesis by (simp add: indexer_of_def Let_def)
qed

lemma indexer_keys_sorted:
  assumes "sorting_kernel K"
  shows "sorted_wrt cell_le (map (\<lambda>i. k ! i) (indexer_of K k))"
proof -
  let ?nn = "filter (\<lambda>i. k ! i \<noteq> Null) [0..<length k]"
  let ?na = "filter (\<lambda>i. k ! i = Null) [0..<length k]"
  let ?ks = "map (\<lambda>i. k ! i) ?nn"
  have p: "mset (K ?ks) = mset [0..<length ?ks]"
    and srt: "sorted_wrt cell_le (map (\<lambda>i. ?ks ! i) (K ?ks))"
    using assms by (simp_all add: sorting_kernel_def)
  have eq: "map (\<lambda>i. k ! i) (map (\<lambda>j. ?nn ! j) (K ?ks)) = map (\<lambda>i. ?ks ! i) (K ?ks)"
  proof -
    have "j < length ?nn" if "j \<in> set (K ?ks)" for j
      using perm_in_range [OF p that] by simp
    then show ?thesis by simp
  qed
  have 1: "sorted_wrt cell_le (map (\<lambda>i. k ! i) (map (\<lambda>j. ?nn ! j) (K ?ks)))"
    by (subst eq) (rule srt)
  have 2: "map (\<lambda>i. k ! i) ?na = replicate (length ?na) Null"
    by (simp add: map_replicate_const [symmetric] del: map_replicate_const)
  have 3: "sorted_wrt cell_le (replicate n Null)" for n
    by (induction n) simp_all
  show ?thesis
    unfolding indexer_of_def Let_def map_append sorted_wrt_append
    using 1 3 by (simp add: 2)
qed

lemma sort_values_sorting_kernel:
  assumes "sorting_kernel K" and "sort_values K df key = Inr out"
  shows "columns out = columns df"
    and "mset (rows out) = mset (rows df)"
    and "sorted_wrt cell_le (map (\<lambda>r. r key) (rows out))"
proof -
  let ?k = "map (\<lambda>r. r key) (rows df)"
  have out: "out = df\<lparr>rows := map (\<lambda>i. rows df ! i) (indexer_of K ?k)\<rparr>"
    using assms(2) by (simp add: sort_values_eq split: if_splits)
  then show "columns out = columns df" by simp
  have m: "mset (indexer_of K ?k) = mset [0..<length (rows df)]"
    using indexer_mset [OF assms(1), of ?k] by simp
  then show "mset (rows out) = mset (rows df)"
    unfolding out using mset_perm_nth [of "indexer_of K ?k" "rows df"] by simp
  have "i < length (rows df)" if "i \<in> set (indexer_of K ?k)" for i
    using perm_in_range [OF m that] .
  then have "map (\<lambda>r. r key) (rows out) = map (\<lambda>i. ?k ! i) (indexer_of K ?k)"
    unfolding out by simp
  then show "sorted_wrt cell_le (map (\<lambda>r. r key) (rows out))"
    using indexer_keys_sorted [OF assms(1), of ?k] by simp
qed

subsection \<open>A stable kernel sorts the rows as insertion sort does\<close>

lemma map_nth_insort_key:
  assumes "\<forall>y \<in> set (i # ys). g y = f (xs ! y)"
  shows "map (\<lambda>j. xs ! j) (insort_key g i ys) = insort_key f (xs ! i) (map (\<lambda>j. xs ! j) ys)"
  using assms by (induction ys) simp_all

lemma map_nth_sort_key:
  assumes "\<forall>y \<in> set ys. g y = f (xs ! y)"
  shows "map (\<lambda>j. xs ! j) (sort_key g ys) = sort_key f (map (\<lambda>j. xs ! j) ys)"
  using assms
proof (induction ys)
  case Nil
  then show ?case by simp
next
  case (Cons i ys)
  then have "\<forall>y \<in> set (i # sort_key g ys). g y = f (xs ! y)" by simp
  then have "map (\<lambda>j. xs ! j) (insort_key g i (sort_key g ys)) =
      insort_key f (xs ! i) (map (\<lambda>j. xs ! j) (sort_key g ys))"
    by (rule map_nth_insort_key)
  also have "map (\<lambda>j. xs ! j) (sort_key g ys) = sort_key f (map (\<lambda>j. xs ! j) ys)"
    using Cons by simp
  finally show ?case by simp
qed

lemma sort_key_positions:
  "map (\<lambda>j. xs ! j) (sort_key (\<lambda>j. f (xs ! j)) [0..<length xs]) = sort_key f xs"
  using map_nth_sort_key [of "[0..<length xs]" "\<lambda>j. f (xs ! j)" f xs]
  by (simp add: map_nth)

lemma insort_key_before:
  "\<forall>b \<in> set B. f x \<le> f b \<Longrightarrow> insort_key f x (A @ B) = insort_key f x A @ B"
proof (induction A)
  case Nil
  then show ?case by (cases B) simp_all
next
  case (Cons a A)
  then show ?case by simp
qed

lemma insort_key_between:
  "\<forall>a \<in> set A. f a < f x \<Longrightarrow> \<forall>b \<in> set B. f x \<le> f b \<Longrightarrow>
   insort_key f x (A @ B) = A @ x # B"
proof (induction A)
  case Nil
  then show ?case by (cases B) simp_all
next
  case (Cons a A)
  then have "\<not> f x \<le> f a" by auto
  with Cons show ?case by simp
qed

lemma sort_key_greatest_last:
  fixes f :: "'a \<Rightarrow> 'k::linorder"
  assumes "\<And>x. f x \<le> m"
  shows "sort_key f xs = sort_key f (filter (\<lambda>x. f x \<noteq> m) xs) @ filter (\<lambda>x. f x = m) xs"
proof (induction xs)
  case Nil
  then show ?case by simp
next
  case (Cons x xs)
  let ?A = "sort_key f (filter (\<lambda>x. f x \<noteq> m) xs)"
  let ?B = "filter (\<lambda>x. f x = m) xs"
  have B: "\<forall>b \<in> set ?B. f x \<le> f b" using assms by simp
  show ?case
  proof (cases "f x = m")
    case True
    have "\<forall>a \<in> set ?A. f a < f x"
      using assms True by (auto simp: less_le)
    then have "insort_key f x (?A @ ?B) = ?A @ x # ?B"
      using B by (rule insort_key_between)
    with Cons True show ?thesis by simp
  next
    case False
    have "insort_key f x (?A @ ?B) = insort_key f x ?A @ ?B"
      using B by (rule insort_key_before)
    with Cons False show ?thesis by simp
  qed
qed

lemma sort_key_of_le_Null: "sort_key_of v \<le> sort_key_of Null"
  by (cases v) simp_all

lemma sort_key_of_eq_Null: "sort_key_of v = sort_key_of Null \<longleftrightarrow> v = Null"
  by (cases v) simp_all

lemma rows_at_filtered:
  "map (\<lambda>i. rs ! i) (filter (\<lambda>i. P (rs ! i)) [0..<length rs]) = filter P rs"
proof -
  have "filter P (map (\<lambda>i. rs ! i) [0..<length rs]) =
        map (\<lambda>i. rs ! i) (filter (\<lambda>i. P (rs ! i)) [0..<length rs])"
    by (simp add: filter_map o_def)
  then show ?thesis by (simp add: map_nth)
qed

lemma stable_rows:
  fixes rs :: "(string \<Rightarrow> cell) list"
  assumes k_def: "k = map (\<lambda>r. r key) rs"
  shows "map (\<lambda>i. rs ! i) (indexer_of stable_argsort k) = sort_key (\<lambda>r. sort_key_of (r key)) rs"
proof -
  let ?F = "\<lambda>r. sort_key_of (r key)"
  let ?nn = "filter (\<lambda>i. k ! i \<noteq> Null) [0..<length k]"
  let ?na = "filter (\<lambda>i. k ! i = Null) [0..<length k]"
  let ?rnn = "filter (\<lambda>r. r key \<noteq> Null) rs"
  have nn: "?nn = filter (\<lambda>i. (rs ! i) key \<noteq> Null) [0..<length rs]"
    and na: "?na = filter (\<lambda>i. (rs ! i) key = Null) [0..<length rs]"
    by (auto simp: k_def intro: filter_cong)
  have rnn: "map (\<lambda>i. rs ! i) ?nn = ?rnn"
    unfolding nn by (rule rows_at_filtered)
  have rna: "map (\<lambda>i. rs ! i) ?na = filter (\<lambda>r. r key = Null) rs"
    unfolding na by (rule rows_at_filtered)
  have ks: "map (\<lambda>i. k ! i) ?nn = map (\<lambda>r. r key) ?rnn"
  proof -
    have "map (\<lambda>i. k ! i) ?nn = map (\<lambda>i. (rs ! i) key) ?nn"
      by (rule map_cong) (auto simp: k_def)
    also have "\<dots> = map (\<lambda>r. r key) (map (\<lambda>i. rs ! i) ?nn)" by (simp add: o_def)
    finally show ?thesis by (simp only: rnn)
  qed
  have len: "length ?nn = length ?rnn"
    using arg_cong [OF rnn, of length] by simp
  let ?p = "sort_key (\<lambda>j. sort_key_of (map (\<lambda>r. r key) ?rnn ! j)) [0..<length ?rnn]"
  have "map (\<lambda>i. rs ! i) (map (\<lambda>j. ?nn ! j) ?p) = map (\<lambda>j. ?rnn ! j) ?p"
  proof -
    have "rs ! (?nn ! j) = ?rnn ! j" if "j < length ?rnn" for j
      using that len nth_map [of j ?nn "\<lambda>i. rs ! i"] by (simp only: rnn)
    then show ?thesis by simp
  qed
  also have "\<dots> = sort_key ?F ?rnn"
    using map_nth_sort_key [of "[0..<length ?rnn]"
        "\<lambda>j. sort_key_of (map (\<lambda>r. r key) ?rnn ! j)" ?F ?rnn]
    by (simp add: map_nth)
  finally have first: "map (\<lambda>i. rs ! i) (map (\<lambda>j. ?nn ! j) ?p) = sort_key ?F ?rnn" .
  have "map (\<lambda>i. rs ! i) (indexer_of stable_argsort k) =
        map (\<lambda>i. rs ! i) (map (\<lambda>j. ?nn ! j) ?p) @ map (\<lambda>i. rs ! i) ?na"
    unfolding indexer_of_def Let_def stable_argsort_def map_append ks length_map len ..
  also have "\<dots> = sort_key ?F ?rnn @ filter (\<lambda>r. r key = Null) rs"
    by (simp only: first rna)
  also have "\<dots> = sort_key ?F rs"
  proof -
    have "sort_key ?F rs = sort_key ?F (filter (\<lambda>r. ?F r \<noteq> sort_key_of Null) rs) @
        filter (\<lambda>r. ?F r = sort_key_of Null) rs"
      by (rule sort_key_greatest_last) (rule sort_key_of_le_Null)
    then show ?thesis by (simp only: sort_key_of_eq_Null)
  qed
  finally show ?thesis .
qed

lemma sort_values_stable:
  assumes "stable_kernel K" and "sort_values K df key = Inr out"
  shows "rows out = sort_key (\<lambda>r. sort_key_of (r key)) (rows df)"
proof -
  have "K = stable_argsort"
    using assms(1) by (auto simp: stable_kernel_def stable_argsort_def)
  then show ?thesis
    using assms(2) stable_rows [of "map (\<lambda>r. r key) (rows df)" key "rows df"]
    by (auto simp: sort_values_eq split: if_splits)
qed

lemma insort_key_map:
  "insort_key f (g x) (map g xs) = map g (insort_key (\<lambda>x. f (g x)) x xs)"
  by (induction xs) simp_all

lemma sort_key_map:
  "sort_key f (map g xs) = map g (sort_key (\<lambda>x. f (g x)) xs)"
  by (induction xs) (simp_all add: insort_key_map)

subsection \<open>When the function returns, and what\<close>

lemma infer_Inr_iff:
  "infer_team_wallets_from_transfers K df t c = Inr (team, out) \<longleftrightarrow>
     accepts df t c \<and> team = team_of (rows df) t c \<and>
     sort_values K (selected df t c) ''block_signed_at'' = Inr out"
proof
  assume a: "infer_team_wallets_from_transfers K df t c = Inr (team, out)"
  then have "accepts df t c" by (rule infer_Inr_accepts)
  with a show "accepts df t c \<and> team = team_of (rows df) t c \<and>
     sort_values K (selected df t c) ''block_signed_at'' = Inr out"
    by (auto simp: infer_accepts bind_err_Inr)
next
  assume "accepts df t c \<and> team = team_of (rows df) t c \<and>
     sort_values K (selected df t c) ''block_signed_at'' = Inr out"
  then show "infer_team_wallets_from_transfers K df t c = Inr (team, out)"
    by (simp add: infer_accepts bind_err_def)
qed

lemma sorting_kernel_stable_argsort: "sorting_kernel stable_argsort"
proof -
  have "sorted_wrt cell_le (map (\<lambda>i. ks ! i) (sort_key (\<lambda>i. sort_key_of (ks ! i)) xs))"
    for ks and xs :: "nat list"
    using sorted_sort_key [of "\<lambda>i. sort_key_of (ks ! i)" xs]
    by (simp add: sorted_wrt_map cell_le_def [abs_def])
  then show ?thesis
    by (simp add: sorting_kernel_def stable_argsort_def)
qed

lemma sort_values_no_rows:
  assumes "sorting_kernel K" and "key \<in> set cs"
  shows "sort_values K \<lparr>columns = cs, rows = []\<rparr> key = Inr \<lparr>columns = cs, rows = []\<rparr>"
proof -
  have "mset (K []) = {#}" using assms(1) by (simp add: sorting_kernel_def)
  then show ?thesis
    using assms(2) by (simp add: sort_values_eq comparable_def indexer_of_def)
qed

subsection \<open>Evaluation on the examples\<close>

lemma lower_examples:
  "lower [] = []"
  "lower ''0xC1'' = ''0xc1''" "lower ''0xc1'' = ''0xc1''"
  "lower ''0xT0'' = ''0xt0''" "lower ''0xt0'' = ''0xt0''"
  "lower ''0xA1'' = ''0xa1''" "lower ''0xB2'' = ''0xb2''"
  "lower ''0xa1'' = ''0xa1''" "lower ''0xb2'' = ''0xb2''"
  "lower ''0x0000000000000000000000000000000000000000'' =
     ''0x0000000000000000000000000000000000000000''"
  "lower ''0X0000000000000000000000000000000000000000'' =
     ''0x0000000000000000000000000000000000000000''"
  by code_simp+

lemma transfer_simps [simp]:
  "transfer ts tx fr to v ''block_signed_at'' = ts"
  "transfer ts tx fr to v ''tx_hash'' = tx"
  "transfer ts tx fr to v ''from'' = fr"
  "transfer ts tx fr to v ''to'' = to"
  "transfer ts tx fr to v ''value_raw'' = v"
  by (simp_all add: transfer_def)

lemmas evaluate_team =
  infer_Inr_iff accepts_def ledger_def team_of_def senders_to_def norm_cell_def
  lower_examples normalizable_def selected_def zero_address_def

lemmas evaluate_sort =
  sort_values_eq comparable_def project_def evidence_columns_def indexer_of_def
  stable_argsort_def no_evidence_def

subsection \<open>The contract rule\<close>

lemma contract_recipients_accepted:
  assumes "list_all (\<lambda>r. normalizable (r ''from'')) rs"
    and "list_all (\<lambda>r. normalizable (r ''to'')) rs"
    and "normalizable t"
    and "list_all (\<lambda>r. normalize_address (r ''from'') = normalize_address t \<longrightarrow>
           r ''to'' \<noteq> Null) rs"
  shows "returned_values (map (\<lambda>r. normalize_address (r ''to''))
           (filter (\<lambda>r. r ''to'' \<noteq> Null \<and>
              normalize_address (r ''from'') = normalize_address t) rs)) =
         map (\<lambda>r. norm_cell (r ''to'')) (filter (\<lambda>r. norm_cell (r ''from'') = norm_cell t) rs)"
  using assms by (induction rs) (simp_all add: normalize_address_eq)

lemma stable_kernel_stable_argsort: "stable_kernel stable_argsort"
  by (simp add: stable_kernel_def stable_argsort_def)

lemmas example_rows = late_row_def early_row_def outsider_row_def

lemma npy_aquicksort_batch:
  "npy_aquicksort (replicate 18 (Str ''t1'')) =
     [0, 15, 14, 13, 12, 11, 10, 9, 8, 7, 6, 5, 4, 3, 2, 1, 16, 17]"
  by code_simp

lemma batch_row_simps:
  "batch_row h ''block_signed_at'' = Str ''t1''"
  "batch_row h ''tx_hash'' = Str h"
  "batch_row h ''from'' = Str ''0xC1''"
  "batch_row h ''to'' = Str ''0xA1''"
  by (simp_all add: batch_row_def)

lemma rows_ledger: "rows (ledger rs) = rs"
  by (simp add: ledger_def)

lemma batch_accepts: "accepts (ledger (map batch_row hs)) (Str ''0xT0'') (Str ''0xc1'')"
  by (simp add: accepts_def ledger_def list_all_iff batch_row_simps normalizable_def)

lemma batch_team:
  "hs \<noteq> [] \<Longrightarrow> team_of (map batch_row hs) (Str ''0xT0'') (Str ''0xc1'') = {Str ''0xa1''}"
  by (cases hs) (auto simp: team_of_def senders_to_def norm_cell_def batch_row_simps
      lower_examples zero_address_def filter_map o_def)

lemma batch_selected:
  "hs \<noteq> [] \<Longrightarrow> selected (ledger (map batch_row hs)) (Str ''0xT0'') (Str ''0xc1'') =
     \<lparr>columns = evidence_columns, rows = map (\<lambda>h. project (batch_row h)) hs\<rparr>"
  by (simp add: selected_def ledger_def batch_team norm_cell_def batch_row_simps lower_examples
      filter_map o_def)

lemma batch_keys:
  "map (\<lambda>r. r ''block_signed_at'') (map (\<lambda>h. project (batch_row h)) hs) =
     replicate (length hs) (Str ''t1'')"
  by (simp add: project_def evidence_columns_def batch_row_simps map_replicate_const o_def)

lemma indexer_of_no_null:
  assumes "Null \<notin> set k" and "set (K k) \<subseteq> {..<length k}"
  shows "indexer_of K k = K k"
proof -
  have n: "k ! i \<noteq> Null" if "i < length k" for i
    using assms(1) nth_mem [OF that] by auto
  have "filter (\<lambda>i. k ! i \<noteq> Null) [0..<length k] = [0..<length k]"
    using n by (simp add: filter_id_conv)
  moreover have "filter (\<lambda>i. k ! i = Null) [0..<length k] = []"
    using n by (simp add: filter_empty_conv)
  moreover have "map (\<lambda>j. [0..<length k] ! j) (K k) = K k"
    by (rule map_idI) (use assms(2) in auto)
  ultimately show ?thesis
    by (simp add: indexer_of_def map_nth)
qed

lemma batch_indexer:
  "indexer_of npy_aquicksort (replicate 18 (Str ''t1'')) =
     [0, 15, 14, 13, 12, 11, 10, 9, 8, 7, 6, 5, 4, 3, 2, 1, 16, 17]"
  by (subst indexer_of_no_null) (simp_all add: npy_aquicksort_batch)

lemma batch_sorted:
  "sort_values npy_aquicksort
     \<lparr>columns = evidence_columns, rows = map (\<lambda>h. project (batch_row h))
       [''h00'', ''h01'', ''h02'', ''h03'', ''h04'', ''h05'', ''h06'', ''h07'', ''h08'',
        ''h09'', ''h10'', ''h11'', ''h12'', ''h13'', ''h14'', ''h15'', ''h16'', ''h17'']\<rparr>
     ''block_signed_at'' = Inr batch_evidence"
proof -
  have k: "map (\<lambda>r. r ''block_signed_at'')
     (rows \<lparr>columns = evidence_columns, rows = map (\<lambda>h. project (batch_row h))
       [''h00'', ''h01'', ''h02'', ''h03'', ''h04'', ''h05'', ''h06'', ''h07'', ''h08'',
        ''h09'', ''h10'', ''h11'', ''h12'', ''h13'', ''h14'', ''h15'', ''h16'', ''h17'']\<rparr>) =
     replicate 18 (Str ''t1'')"
    by (simp add: project_def evidence_columns_def batch_row_simps numeral_eq_Suc)
  have c: "comparable (filter (\<lambda>v. v \<noteq> Null) (replicate 18 (Str ''t1'')))"
    by (simp add: comparable_def list_all_iff)
  show ?thesis
    unfolding sort_values_eq k batch_indexer
    using c by (simp add: evidence_columns_def batch_evidence_def)
qed

subsection \<open>Case variants\<close>

lemma lower_char_idem: "lower_char (lower_char a) = lower_char a"
proof -
  have "of_char (char_of (n + 32 :: nat)) = n + 32" if "n \<le> 222" for n
    using that by simp
  then show ?thesis
    by (auto simp: lower_char_def Let_def)
qed

lemma same_letter_lower: "same_letter a b \<Longrightarrow> lower_char a = lower_char b"
  by (auto simp: same_letter_def lower_char_idem)

lemma case_variant_lower: "list_all2 same_letter s s' \<Longrightarrow> lower s = lower s'"
  by (induction rule: list_all2_induct) (simp_all add: lower_def same_letter_lower)

lemma case_variant_facts:
  assumes "case_variant v v'"
  shows "norm_cell v = norm_cell v'" and "normalizable v = normalizable v'"
    and "truthy v = truthy v'" and "is_str v = is_str v'"
  using assms
  by (induction v v' rule: case_variant.induct)
     (auto simp: norm_cell_def normalizable_def case_variant_lower)

lemma row_case_variant_facts:
  assumes "row_case_variant r r'"
  shows "norm_cell (r' ''from'') = norm_cell (r ''from'')"
    and "norm_cell (r' ''to'') = norm_cell (r ''to'')"
    and "normalizable (r' ''from'') = normalizable (r ''from'')"
    and "normalizable (r' ''to'') = normalizable (r ''to'')"
    and "r' ''block_signed_at'' = r ''block_signed_at''"
proof -
  from assms have f: "case_variant (r ''from'') (r' ''from'')"
    and t: "case_variant (r ''to'') (r' ''to'')"
    and e: "r' = r(''from'' := r' ''from'', ''to'' := r' ''to'')"
    by (simp_all add: row_case_variant_def)
  show "norm_cell (r' ''from'') = norm_cell (r ''from'')"
    and "normalizable (r' ''from'') = normalizable (r ''from'')"
    using case_variant_facts(1,2) [OF f] by simp_all
  show "norm_cell (r' ''to'') = norm_cell (r ''to'')"
    and "normalizable (r' ''to'') = normalizable (r ''to'')"
    using case_variant_facts(1,2) [OF t] by simp_all
  have "r' ''block_signed_at'' = (r(''from'' := r' ''from'', ''to'' := r' ''to'')) ''block_signed_at''"
    using e by simp
  then show "r' ''block_signed_at'' = r ''block_signed_at''" by simp
qed

lemma map_filter_related:
  assumes "list_all2 R xs ys"
    and "\<And>x y. R x y \<Longrightarrow> P x = Q y"
    and "\<And>x y. R x y \<Longrightarrow> f x = g y"
  shows "map f (filter P xs) = map g (filter Q ys)"
  using assms(1)
  by (induction rule: list_all2_induct) (auto simp: assms(2,3))

lemma list_all_related:
  assumes "list_all2 R xs ys" and "\<And>x y. R x y \<Longrightarrow> P x = Q y"
  shows "list_all P xs = list_all Q ys"
  using assms(1)
  by (induction rule: list_all2_induct) (auto simp: assms(2))

lemma senders_to_variant:
  assumes "list_all2 row_case_variant rs rs'"
  shows "senders_to rs' s = senders_to rs s"
  unfolding senders_to_def
  using map_filter_related [OF assms, of "\<lambda>r. norm_cell (r ''from'') = s"
      "\<lambda>r. norm_cell (r ''from'') = s" "\<lambda>r. norm_cell (r ''to'')" "\<lambda>r. norm_cell (r ''to'')"]
  by (simp add: row_case_variant_facts)

lemma team_of_variant:
  assumes "list_all2 row_case_variant rs rs'" and "case_variant t t'" and "case_variant c c'"
  shows "team_of rs' t' c' = team_of rs t c"
  using case_variant_facts(1,3) [OF assms(2)] case_variant_facts(1,3) [OF assms(3)]
  by (simp add: team_of_def senders_to_variant [OF assms(1)])

lemma accepts_variant:
  assumes "ledger_case_variant df df'" and "case_variant t t'" and "case_variant c c'"
  shows "accepts df' t' c' = accepts df t c"
proof -
  from assms(1) have cs: "columns df' = columns df"
    and rs: "list_all2 row_case_variant (rows df) (rows df')"
    by (simp_all add: ledger_case_variant_def)
  have 1: "list_all (\<lambda>r. normalizable (r ''from'')) (rows df) =
           list_all (\<lambda>r. normalizable (r ''from'')) (rows df')"
    by (rule list_all_related [OF rs]) (simp add: row_case_variant_facts)
  have 2: "list_all (\<lambda>r. normalizable (r ''to'')) (rows df) =
           list_all (\<lambda>r. normalizable (r ''to'')) (rows df')"
    by (rule list_all_related [OF rs]) (simp add: row_case_variant_facts)
  show ?thesis
    using case_variant_facts [OF assms(2)] case_variant_facts [OF assms(3)]
    by (simp add: accepts_def cs 1 2)
qed

lemma selected_keys_variant:
  assumes "ledger_case_variant df df'" and "case_variant t t'" and "case_variant c c'"
  shows "map (\<lambda>r. r ''block_signed_at'') (rows (selected df' t' c')) =
         map (\<lambda>r. r ''block_signed_at'') (rows (selected df t c))"
proof -
  from assms(1) have rs: "list_all2 row_case_variant (rows df) (rows df')"
    by (simp add: ledger_case_variant_def)
  have tm: "team_of (rows df') t' c' = team_of (rows df) t c"
    by (rule team_of_variant [OF rs assms(2,3)])
  have "map (\<lambda>r. project r ''block_signed_at'')
          (filter (\<lambda>r. norm_cell (r ''to'') \<in> team_of (rows df) t c) (rows df)) =
        map (\<lambda>r. project r ''block_signed_at'')
          (filter (\<lambda>r. norm_cell (r ''to'') \<in> team_of (rows df) t c) (rows df'))"
    by (rule map_filter_related [OF rs])
       (simp_all add: row_case_variant_facts project_def)
  then show ?thesis
    by (simp add: selected_def tm o_def)
qed

lemma sort_values_returns:
  "(\<exists>out. sort_values K df key = Inr out) \<longleftrightarrow>
     key \<in> set (columns df) \<and>
     comparable (filter (\<lambda>v. v \<noteq> Null) (map (\<lambda>r. r key) (rows df)))"
  by (simp add: sort_values_eq)

lemma same_letter_refl [simp]: "same_letter a a"
  by (simp add: same_letter_def)

lemma same_letter_examples:
  "same_letter CHR ''C'' CHR ''c''" "same_letter CHR ''c'' CHR ''C''"
  "same_letter CHR ''A'' CHR ''a''" "same_letter CHR ''T'' CHR ''t''"
  by code_simp+

subsection \<open>Runs on the store\<close>

lemma extends_refl [simp]: "extends s s"
  by (simp add: extends_def)

lemma extends_append: "extends s0 s \<Longrightarrow> extends s0 (s @ xs)"
  by (simp add: extends_def)

lemma extends_update: "extends s0 s \<Longrightarrow> length s0 \<le> d \<Longrightarrow> extends s0 (s[d := x])"
  by (simp add: extends_def)

lemma extends_bind:
  assumes "extends s0 (snd m)"
    and "\<And>x. fst m = Inr x \<Longrightarrow> extends s0 (snd (f x (snd m)))"
  shows "extends s0 (snd (bind_st m f))"
  using assms by (cases "fst m") (simp_all add: bind_st_def)

lemma extends_new_frame: "extends s0 s \<Longrightarrow> extends s0 (snd (new_frame s r))"
  by (cases r) (simp_all add: new_frame_def extends_append)

lemma fst_new_frame: "fst (new_frame s r) = Inr x \<Longrightarrow> x = length s"
  by (cases r) (simp_all add: new_frame_def)

lemma bind_st_pair: "bind_st (x, s) f = (case x of Inl e \<Rightarrow> (Inl e, s) | Inr v \<Rightarrow> f v s)"
  by (cases x) (simp_all add: bind_st_def)

lemma new_frame_Inr: "new_frame s (Inr f) = (Inr (length s), s @ [f])"
  by (simp add: new_frame_def)

lemma received_from_st_eq:
  "received_from_st s d x T = (received_from (s ! d) x T, s)"
  unfolding received_from_st_def received_from_def bind_st_pair bind_err_def
  by (simp split: sum.splits)

lemma keeps_bind:
  assumes "extends s0 (snd m)"
    and "\<And>x S. extends s0 S \<Longrightarrow> extends s0 (snd (f x S))"
  shows "extends s0 (snd (bind_st m f))"
  using assms by (cases "fst m") (simp_all add: bind_st_def)

lemma store_unchanged:
  "extends s (snd (infer_team_wallets_from_transfers_st K s df t c))"
  unfolding infer_team_wallets_from_transfers_st_def Let_def copy_st_def
  apply (rule extends_bind)
   apply (simp add: extends_new_frame)
  apply (drule fst_new_frame)
  apply (simp only: new_frame_Inr snd_conv)
  apply (intro keeps_bind)
                   apply (simp_all add: setitem_st_def extends_new_frame received_from_st_eq
      extends_update extends_append)
  done

lemma returned_bind_pair:
  "returned (bind_st (x, S) f) = bind_err x (\<lambda>v. returned (f v S))"
  by (cases x) (simp_all add: bind_st_def bind_err_def returned_def)

lemma returned_bind_new_frame:
  "returned (bind_st (new_frame S r) f) = bind_err r (\<lambda>fr. returned (f (length S) (S @ [fr])))"
  by (cases r) (simp_all add: bind_st_def bind_err_def returned_def new_frame_def)

lemma bind_setitem_st:
  "bind_st (setitem_st S d c vs) f = f () (S[d := setitem (S ! d) c vs])"
  by (simp add: bind_st_def setitem_st_def)

lemma if_pair: "(if b then (x, S) else (y, S)) = (if b then x else y, S)"
  by simp

lemma returned_value: "returned (Inr (team, out), S) = Inr (team, S ! out)"
  by (simp add: returned_def)

lemma returned_infer:
  "returned (infer_team_wallets_from_transfers_st K s df t c) =
     infer_team_wallets_from_transfers K (s ! df) t c"
  unfolding infer_team_wallets_from_transfers_st_def infer_team_wallets_from_transfers_def
    copy_st_def received_from_st_eq if_pair
  by (simp add: returned_bind_pair returned_bind_new_frame bind_setitem_st returned_value
      bind_err_def Let_def nth_append cong: sum.case_cong if_cong)

lemma store_keeps_object:
  assumes "df < length s"
  shows "snd (infer_team_wallets_from_transfers_st K s df t c) ! df = s ! df"
proof -
  let ?s' = "snd (infer_team_wallets_from_transfers_st K s df t c)"
  have "take (length s) ?s' = s"
    using store_unchanged [of s K df t c] by (simp add: extends_def)
  then have "s ! df = take (length s) ?s' ! df" by simp
  also have "\<dots> = ?s' ! df" using assms by simp
  finally show ?thesis by simp
qed

lemma burn_ledger_result:
  "infer_team_wallets_from_transfers stable_argsort burn_ledger (Str ''0xT0'') (Str ''0xc1'') =
     Inr ({Str ''0xa1''},
          \<lparr>columns = evidence_columns,
           rows = [project (transfer (Str ''t2'') (Str ''h2'') (Str ''0xC1'') (Str ''0xA1'') (Num 5))]\<rparr>)"
  apply (simp add: evaluate_team burn_ledger_def)
  apply (simp add: evaluate_sort)
  done

section \<open>The address normalizer\<close>

text \<open>
  C6: \<open>normalize_address\<close> returns the empty string for \<open>None\<close>, without raising, and
  for every \<open>str\<close> it returns the string with each code point lower-cased and nothing
  else changed; the blanks around \<open>" 0xAbC9 "\<close> stay.
\<close>

theorem normalize_address_spec:
  "normalize_address Null = Inr (Str []) \<and>
   normalize_address (Str s) = Inr (Str (map lower_char s)) \<and>
   normalize_address (Str '' 0xAbC9 '') = Inr (Str '' 0xabc9 '')"
proof -
  have "lower '' 0xAbC9 '' = '' 0xabc9 ''" by code_simp
  then show ?thesis
    by (cases "s = []") (simp_all add: normalize_address_def lower_def)
qed

section \<open>The claims about the team-wallet heuristic\<close>

text \<open>
  C4: whatever the ledger, the token contract address and the creator address, the Team
  Address Set that \<open>infer_team_wallets_from_transfers\<close> returns never contains the
  all-zero address.
\<close>

theorem team_without_zero_address:
  "infer_team_wallets_from_transfers K df t c = Inr (team, out) \<Longrightarrow>
   Str zero_address \<notin> team"
  by (simp add: infer_Inr_iff team_of_def)

theorem team_without_zero_address_witness:
  "infer_team_wallets_from_transfers stable_argsort burn_ledger (Str ''0xT0'') (Str ''0xc1'') =
     Inr ({Str ''0xa1''},
          \<lparr>columns = evidence_columns,
           rows = [project (transfer (Str ''t2'') (Str ''h2'') (Str ''0xC1'') (Str ''0xA1'') (Num 5))]\<rparr>) \<and>
   Str zero_address \<notin> {Str ''0xa1''}"
proof -
  have h: "infer_team_wallets_from_transfers stable_argsort burn_ledger (Str ''0xT0'') (Str ''0xc1'') =
     Inr ({Str ''0xa1''},
          \<lparr>columns = evidence_columns,
           rows = [project (transfer (Str ''t2'') (Str ''h2'') (Str ''0xC1'') (Str ''0xA1'') (Num 5))]\<rparr>)"
    apply (simp add: evaluate_team burn_ledger_def)
    apply (simp add: evaluate_sort)
    done
  show ?thesis
    using h team_without_zero_address [OF h] by simp
qed

text \<open>
  C10: a creator address that is falsy, the empty string as well as \<open>None\<close>, switches
  the creator rule off: the call behaves as with \<open>None\<close>. With the empty string as
  creator, the rows of \<open>no_sender_ledger\<close>, whose normalized \<open>from\<close> is the empty
  string, give no team address.
\<close>

theorem falsy_creator_as_null:
  "\<not> truthy c \<Longrightarrow>
   infer_team_wallets_from_transfers K df t c = infer_team_wallets_from_transfers K df t Null"
  by (simp add: infer_team_wallets_from_transfers_def)

theorem falsy_creator_as_null_witness:
  "\<not> truthy (Str []) \<and>
   infer_team_wallets_from_transfers stable_argsort no_sender_ledger (Str ''0xT0'') (Str []) =
     infer_team_wallets_from_transfers stable_argsort no_sender_ledger (Str ''0xT0'') Null \<and>
   infer_team_wallets_from_transfers stable_argsort no_sender_ledger (Str ''0xT0'') (Str []) =
     Inr ({}, no_evidence)"
proof -
  have h: "\<not> truthy (Str [])" by simp
  have "infer_team_wallets_from_transfers stable_argsort no_sender_ledger (Str ''0xT0'') Null =
     Inr ({}, no_evidence)"
    apply (simp add: evaluate_team no_sender_ledger_def)
    apply (simp add: evaluate_sort)
    done
  then show ?thesis
    using h falsy_creator_as_null [OF h, of stable_argsort no_sender_ledger "Str ''0xT0''"]
    by simp
qed

text \<open>
  C3, as the code behaves: \<open>normalize_address\<close> turns a missing \<open>to\<close> into the empty
  string, so \<open>dropna\<close> finds nothing to drop. A transfer from the creator with \<open>to\<close>
  \<open>None\<close> puts the empty string into the Team Address Set, and the row is in the
  Evidence Table.
\<close>

theorem null_recipient_joins_team:
  "infer_team_wallets_from_transfers stable_argsort (ledger [null_to_row]) (Str ''0xT0'')
     (Str ''0xc1'') =
   Inr ({Str []}, \<lparr>columns = evidence_columns, rows = [project null_to_row]\<rparr>)"
  apply (simp add: evaluate_team null_to_row_def)
  apply (simp add: evaluate_sort)
  done

text \<open>
  C1, as amended: when the creator address is \<open>None\<close> and no record sent by the token
  contract has a missing \<open>to\<close>, the Team Address Set is the set of the normalized
  \<open>to\<close> addresses of the records whose normalized \<open>from\<close> equals the normalized
  token contract address, with the all-zero address taken out. Records of other
  senders may lack their \<open>to\<close>.
\<close>

theorem contract_rule:
  assumes "infer_team_wallets_from_transfers K df t Null = Inr (team, out)"
    and "list_all (\<lambda>r. normalize_address (r ''from'') = normalize_address t \<longrightarrow>
           r ''to'' \<noteq> Null) (rows df)"
  shows "team = contract_recipients df t - {Str zero_address}"
proof -
  from assms(1) have a: "accepts df t Null" and t: "team = team_of (rows df) t Null"
    by (simp_all add: infer_Inr_iff)
  from a assms(2) have "contract_recipients df t = senders_to (rows df) (norm_cell t)"
    unfolding contract_recipients_def senders_to_def accepts_def
    by (simp add: contract_recipients_accepted)
  with t show ?thesis by (simp add: team_of_def)
qed

theorem contract_rule_witness:
  "infer_team_wallets_from_transfers stable_argsort scenario_b (Str ''0xT0'') Null =
     Inr ({Str ''0xa1''}, \<lparr>columns = evidence_columns, rows = [project scenario_b_row]\<rparr>) \<and>
   list_all (\<lambda>r. normalize_address (r ''from'') = normalize_address (Str ''0xT0'') \<longrightarrow>
      r ''to'' \<noteq> Null) (rows scenario_b) \<and>
   \<not> list_all (\<lambda>r. r ''to'' \<noteq> Null) (rows scenario_b) \<and>
   {Str ''0xa1''} = contract_recipients scenario_b (Str ''0xT0'') - {Str zero_address}"
proof -
  have h: "infer_team_wallets_from_transfers stable_argsort scenario_b (Str ''0xT0'') Null =
     Inr ({Str ''0xa1''}, \<lparr>columns = evidence_columns, rows = [project scenario_b_row]\<rparr>)"
    apply (simp add: evaluate_team scenario_b_def scenario_b_row_def)
    apply (simp add: evaluate_sort)
    done
  have n: "list_all (\<lambda>r. normalize_address (r ''from'') = normalize_address (Str ''0xT0'') \<longrightarrow>
      r ''to'' \<noteq> Null) (rows scenario_b)"
    by (simp add: scenario_b_def scenario_b_row_def ledger_def normalize_address_def
        lower_examples)
  have m: "\<not> list_all (\<lambda>r. r ''to'' \<noteq> Null) (rows scenario_b)"
    by (simp add: scenario_b_def scenario_b_row_def ledger_def)
  show ?thesis
    using h n m contract_rule [OF h n] by simp
qed

text \<open>
  C1 as stated fails: the token contract sends to the zero address, the set of the
  claim holds that address and the returned set is empty.
\<close>

theorem contract_rule_counterexample:
  "infer_team_wallets_from_transfers stable_argsort mint_burn_ledger (Str ''0xT0'') Null =
     Inr ({}, no_evidence) \<and>
   contract_recipients mint_burn_ledger (Str ''0xT0'') = {Str zero_address}"
proof -
  have "infer_team_wallets_from_transfers stable_argsort mint_burn_ledger (Str ''0xT0'') Null =
     Inr ({}, no_evidence)"
    apply (simp add: evaluate_team mint_burn_ledger_def)
    apply (simp add: evaluate_sort)
    done
  moreover have "contract_recipients mint_burn_ledger (Str ''0xT0'') = {Str zero_address}"
    by (simp add: contract_recipients_def mint_burn_ledger_def ledger_def normalize_address_def
        lower_examples zero_address_def)
  ultimately show ?thesis by simp
qed

text \<open>
  C9, as amended: for a ledger without rows that has the five columns of a transfer,
  every token contract address and every creator address, present or \<open>None\<close>, the
  function returns the empty Team Address Set and an Evidence Table without rows.
\<close>

theorem empty_ledger:
  assumes "sorting_kernel K" and "rows df = []"
    and "set evidence_columns \<subseteq> set (columns df)"
  shows "infer_team_wallets_from_transfers K df (Str t) Null = Inr ({}, no_evidence) \<and>
         infer_team_wallets_from_transfers K df (Str t) (Str c) = Inr ({}, no_evidence)"
proof -
  have "''block_signed_at'' \<in> set evidence_columns" by (simp add: evidence_columns_def)
  then have "sort_values K \<lparr>columns = evidence_columns, rows = []\<rparr> ''block_signed_at'' =
      Inr \<lparr>columns = evidence_columns, rows = []\<rparr>"
    by (rule sort_values_no_rows [OF assms(1)])
  then show ?thesis
    using assms(2,3)
    by (simp add: infer_Inr_iff accepts_def team_of_def senders_to_def selected_def
        normalizable_def no_evidence_def)
qed

theorem empty_ledger_witness:
  "sorting_kernel stable_argsort \<and> rows (ledger []) = [] \<and>
   set evidence_columns \<subseteq> set (columns (ledger [])) \<and>
   infer_team_wallets_from_transfers stable_argsort (ledger []) (Str ''0xT0'') Null =
     Inr ({}, no_evidence) \<and>
   infer_team_wallets_from_transfers stable_argsort (ledger []) (Str ''0xT0'') (Str ''0xc1'') =
     Inr ({}, no_evidence)"
proof -
  have r: "rows (ledger []) = []" and c: "set evidence_columns \<subseteq> set (columns (ledger []))"
    by (simp_all add: ledger_def)
  show ?thesis
    using sorting_kernel_stable_argsort r c
      empty_ledger [OF sorting_kernel_stable_argsort r c, of "''0xT0''" "''0xc1''"]
    by simp
qed

text \<open>
  C9 as stated fails on the frame \<open>pd.DataFrame()\<close>, which has no rows and no columns
  and is what \<open>fetch_token_transfers_covalent\<close> returns when it found no transfer: the
  first statement that reads a column raises \<open>KeyError\<close>.
\<close>

theorem empty_ledger_counterexample:
  "infer_team_wallets_from_transfers stable_argsort \<lparr>columns = [], rows = []\<rparr>
     (Str ''0xT0'') Null = Inl (KeyError ''from'')"
  by (simp add: infer_team_wallets_from_transfers_def getitem_def bind_err_def)

text \<open>
  C2, as amended: the Evidence Table has the columns \<open>block_signed_at\<close>, \<open>tx_hash\<close>,
  \<open>from\<close>, \<open>to\<close>, \<open>value_raw\<close> in that order, holds exactly the ledger records whose
  normalized \<open>to\<close> is in the returned Team Address Set, each as often as the ledger has
  it, and is sorted ascending by \<open>block_signed_at\<close>, the records without a timestamp
  last. Records with the same \<open>block_signed_at\<close> are in the order the sorting kernel
  gives them; they keep their input order when the kernel is stable.
\<close>

theorem evidence_table:
  assumes "sorting_kernel K"
    and "infer_team_wallets_from_transfers K df t c = Inr (team, out)"
  shows "columns out = evidence_columns \<and>
         mset (records out) =
           mset (map (\<lambda>r. map r evidence_columns)
             (filter (\<lambda>r. normalize_address (r ''to'') \<in> Inr ` team) (rows df))) \<and>
         sorted_wrt cell_le (map (\<lambda>r. r ''block_signed_at'') (rows out)) \<and>
         (stable_kernel K \<longrightarrow>
            records out =
              map (\<lambda>r. map r evidence_columns)
                (sort_key (\<lambda>r. sort_key_of (r ''block_signed_at''))
                  (filter (\<lambda>r. normalize_address (r ''to'') \<in> Inr ` team) (rows df))))"
proof -
  let ?sel = "\<lambda>r. normalize_address (r ''to'') \<in> Inr ` team"
  let ?key = "\<lambda>r. sort_key_of (r ''block_signed_at'')"
  let ?cells = "\<lambda>r. map r evidence_columns"
  from assms(2) have a: "accepts df t c" and tm: "team = team_of (rows df) t c"
    and sv: "sort_values K (selected df t c) ''block_signed_at'' = Inr out"
    by (simp_all add: infer_Inr_iff)
  have "filter (\<lambda>r. norm_cell (r ''to'') \<in> team) (rows df) = filter ?sel (rows df)"
    using a by (intro filter_cong) (auto simp: accepts_def list_all_iff normalize_address_eq)
  then have rs: "rows (selected df t c) = map project (filter ?sel (rows df))"
    by (simp add: selected_def tm)
  have cs: "columns (selected df t c) = evidence_columns"
    by (simp add: selected_def)
  have pc: "?cells (project r) = ?cells r" for r
    by (simp add: project_def)
  have pk: "?key (project r) = ?key r" for r
    by (simp add: project_def evidence_columns_def)
  note sk = sort_values_sorting_kernel [OF assms(1) sv]
  have 1: "columns out = evidence_columns"
    using sk(1) cs by simp
  have "mset (records out) = image_mset ?cells (mset (rows out))"
    by (simp add: records_def 1)
  also have "\<dots> = image_mset ?cells (mset (map project (filter ?sel (rows df))))"
    by (simp only: sk(2) rs)
  also have "\<dots> = mset (map ?cells (filter ?sel (rows df)))"
    by (simp add: image_mset.compositionality o_def pc)
  finally have 2: "mset (records out) = mset (map ?cells (filter ?sel (rows df)))" .
  have 3: "records out = map ?cells (sort_key ?key (filter ?sel (rows df)))"
    if "stable_kernel K"
  proof -
    have "rows out = sort_key ?key (map project (filter ?sel (rows df)))"
      using sort_values_stable [OF that sv] by (simp only: rs)
    also have "\<dots> = map project (sort_key (\<lambda>r. ?key (project r)) (filter ?sel (rows df)))"
      by (rule sort_key_map)
    finally show ?thesis
      by (simp add: records_def 1 pk o_def pc)
  qed
  show ?thesis
    using 1 2 sk(3) 3 by blast
qed

theorem evidence_table_witness:
  "sorting_kernel stable_argsort \<and> stable_kernel stable_argsort \<and>
   infer_team_wallets_from_transfers stable_argsort unordered_ledger (Str ''0xT0'') (Str ''0xc1'') =
     Inr ({Str ''0xa1'', Str ''0xb2''}, unordered_evidence) \<and>
   columns unordered_evidence = evidence_columns \<and>
   mset (records unordered_evidence) =
     mset (map (\<lambda>r. map r evidence_columns)
       (filter (\<lambda>r. normalize_address (r ''to'') \<in> Inr ` {Str ''0xa1'', Str ''0xb2''})
         (rows unordered_ledger))) \<and>
   sorted_wrt cell_le (map (\<lambda>r. r ''block_signed_at'') (rows unordered_evidence)) \<and>
   records unordered_evidence =
     [[Str ''t1'', Str ''h4'', Str ''0xC1'', Str ''0xA1'', Num 4],
      [Str ''t2'', Str ''h3'', Str ''0xT0'', Str ''0xB2'', Num 3]]"
proof -
  have h: "infer_team_wallets_from_transfers stable_argsort unordered_ledger (Str ''0xT0'')
      (Str ''0xc1'') = Inr ({Str ''0xa1'', Str ''0xb2''}, unordered_evidence)"
    apply (simp add: evaluate_team unordered_ledger_def example_rows)
    apply (simp add: evaluate_sort unordered_evidence_def example_rows insert_commute)
    done
  have r: "records unordered_evidence =
     [[Str ''t1'', Str ''h4'', Str ''0xC1'', Str ''0xA1'', Num 4],
      [Str ''t2'', Str ''h3'', Str ''0xT0'', Str ''0xB2'', Num 3]]"
    by (simp add: records_def unordered_evidence_def project_def evidence_columns_def
        example_rows)
  note e = evidence_table [OF sorting_kernel_stable_argsort h]
  from e have c1: "columns unordered_evidence = evidence_columns" by blast
  from e have c2: "mset (records unordered_evidence) =
     mset (map (\<lambda>r. map r evidence_columns)
       (filter (\<lambda>r. normalize_address (r ''to'') \<in> Inr ` {Str ''0xa1'', Str ''0xb2''})
         (rows unordered_ledger)))" by blast
  from e have c3: "sorted_wrt cell_le (map (\<lambda>r. r ''block_signed_at'') (rows unordered_evidence))"
    by blast
  show ?thesis
    by (intro conjI)
      (rule sorting_kernel_stable_argsort stable_kernel_stable_argsort h c1 c2 c3 r)+
qed

text \<open>
  C2 as stated fails for the order of records with equal timestamps. The source calls
  \<open>sort_values\<close> with the default \<open>kind='quicksort'\<close>, and numpy's quicksort
  partitions every segment of more than 17 keys. For the eighteen transfers of
  \<open>batch_ledger\<close>, which have the same \<open>block_signed_at\<close>, it returns the records with
  the hashes \<open>h01\<close> to \<open>h15\<close> in the reverse of their order in the ledger.
\<close>

theorem evidence_order_counterexample:
  "infer_team_wallets_from_transfers npy_aquicksort batch_ledger (Str ''0xT0'') (Str ''0xc1'') =
     Inr ({Str ''0xa1''}, batch_evidence) \<and>
   getitem batch_ledger ''block_signed_at'' = Inr (replicate 18 (Str ''t1'')) \<and>
   getitem batch_ledger ''tx_hash'' = Inr (map Str
     [''h00'', ''h01'', ''h02'', ''h03'', ''h04'', ''h05'', ''h06'', ''h07'', ''h08'',
      ''h09'', ''h10'', ''h11'', ''h12'', ''h13'', ''h14'', ''h15'', ''h16'', ''h17'']) \<and>
   getitem batch_evidence ''tx_hash'' = Inr (map Str
     [''h00'', ''h15'', ''h14'', ''h13'', ''h12'', ''h11'', ''h10'', ''h09'', ''h08'',
      ''h07'', ''h06'', ''h05'', ''h04'', ''h03'', ''h02'', ''h01'', ''h16'', ''h17''])"
proof -
  have "infer_team_wallets_from_transfers npy_aquicksort batch_ledger (Str ''0xT0'')
      (Str ''0xc1'') = Inr ({Str ''0xa1''}, batch_evidence)"
    unfolding infer_Inr_iff batch_ledger_def
    by (simp add: batch_accepts batch_selected batch_sorted batch_team rows_ledger
        del: list.map)
  moreover have "getitem batch_ledger ''block_signed_at'' = Inr (replicate 18 (Str ''t1''))"
    by (simp add: getitem_def batch_ledger_def ledger_def batch_row_def evidence_columns_def
        numeral_eq_Suc)
  moreover have "getitem batch_ledger ''tx_hash'' = Inr (map Str
     [''h00'', ''h01'', ''h02'', ''h03'', ''h04'', ''h05'', ''h06'', ''h07'', ''h08'',
      ''h09'', ''h10'', ''h11'', ''h12'', ''h13'', ''h14'', ''h15'', ''h16'', ''h17''])"
    by (simp add: getitem_def batch_ledger_def ledger_def batch_row_def evidence_columns_def)
  moreover have "getitem batch_evidence ''tx_hash'' = Inr (map Str
     [''h00'', ''h15'', ''h14'', ''h13'', ''h12'', ''h11'', ''h10'', ''h09'', ''h08'',
      ''h07'', ''h06'', ''h05'', ''h04'', ''h03'', ''h02'', ''h01'', ''h16'', ''h17''])"
    by (simp add: getitem_def batch_evidence_def project_def batch_row_def evidence_columns_def)
  ultimately show ?thesis by (intro conjI)
qed

text \<open>
  C5: address comparison is case-insensitive. When a ledger, the token contract address
  and the creator address are changed in nothing but the letter case of the \<open>from\<close>
  and \<open>to\<close> fields and of the two addresses, the function returns the same Team
  Address Set. The record with \<open>from = "0xC1"\<close> matches the creator \<open>"0xc1"\<close>, and
  the record with \<open>from = "0xc1"\<close> matches the creator \<open>"0xC1"\<close>.
\<close>

theorem case_insensitive:
  assumes "ledger_case_variant df df'" and "case_variant t t'" and "case_variant c c'"
    and "infer_team_wallets_from_transfers K df t c = Inr (team, out)"
  shows "\<exists>out'. infer_team_wallets_from_transfers K df' t' c' = Inr (team, out')"
proof -
  from assms(4) have a: "accepts df t c" and tm: "team = team_of (rows df) t c"
    and sv: "sort_values K (selected df t c) ''block_signed_at'' = Inr out"
    by (simp_all add: infer_Inr_iff)
  from assms(1) have rs: "list_all2 row_case_variant (rows df) (rows df')"
    by (simp add: ledger_case_variant_def)
  have a': "accepts df' t' c'"
    using a accepts_variant [OF assms(1-3)] by simp
  have tm': "team = team_of (rows df') t' c'"
    using tm team_of_variant [OF rs assms(2,3)] by simp
  have "\<exists>out. sort_values K (selected df t c) ''block_signed_at'' = Inr out"
    using sv by blast
  then have "\<exists>out'. sort_values K (selected df' t' c') ''block_signed_at'' = Inr out'"
    unfolding sort_values_returns selected_keys_variant [OF assms(1-3)]
    by (simp add: selected_def)
  then show ?thesis
    using a' tm' by (auto simp: infer_Inr_iff)
qed

theorem case_insensitive_witness:
  "ledger_case_variant (ledger [upper_case_row]) (ledger [lower_case_row]) \<and>
   case_variant (Str ''0xT0'') (Str ''0xt0'') \<and>
   case_variant (Str ''0xc1'') (Str ''0xC1'') \<and>
   infer_team_wallets_from_transfers stable_argsort (ledger [upper_case_row]) (Str ''0xT0'')
     (Str ''0xc1'') =
     Inr ({Str ''0xa1''}, \<lparr>columns = evidence_columns, rows = [project upper_case_row]\<rparr>) \<and>
   infer_team_wallets_from_transfers stable_argsort (ledger [lower_case_row]) (Str ''0xt0'')
     (Str ''0xC1'') =
     Inr ({Str ''0xa1''}, \<lparr>columns = evidence_columns, rows = [project lower_case_row]\<rparr>)"
proof -
  have "lower_case_row = upper_case_row(''from'' := lower_case_row ''from'',
      ''to'' := lower_case_row ''to'')"
    by (rule ext) (simp add: lower_case_row_def upper_case_row_def transfer_def)
  then have l: "ledger_case_variant (ledger [upper_case_row]) (ledger [lower_case_row])"
    unfolding ledger_case_variant_def row_case_variant_def
    by (simp add: ledger_def) (simp add: lower_case_row_def upper_case_row_def same_letter_examples)
  have t: "case_variant (Str ''0xT0'') (Str ''0xt0'')"
    and c: "case_variant (Str ''0xc1'') (Str ''0xC1'')"
    by (simp_all add: same_letter_examples)
  have h: "infer_team_wallets_from_transfers stable_argsort (ledger [upper_case_row])
      (Str ''0xT0'') (Str ''0xc1'') =
     Inr ({Str ''0xa1''}, \<lparr>columns = evidence_columns, rows = [project upper_case_row]\<rparr>)"
    apply (simp add: evaluate_team upper_case_row_def)
    apply (simp add: evaluate_sort)
    done
  from case_insensitive [OF l t c h] obtain out' where
    "infer_team_wallets_from_transfers stable_argsort (ledger [lower_case_row]) (Str ''0xt0'')
       (Str ''0xC1'') = Inr ({Str ''0xa1''}, out')" ..
  then have h': "infer_team_wallets_from_transfers stable_argsort (ledger [lower_case_row])
      (Str ''0xt0'') (Str ''0xC1'') =
     Inr ({Str ''0xa1''}, \<lparr>columns = evidence_columns, rows = [project lower_case_row]\<rparr>)"
    apply (simp add: infer_Inr_iff)
    apply (simp add: evaluate_team lower_case_row_def)
    apply (simp add: evaluate_sort)
    done
  show ?thesis
    by (intro conjI) (rule l t c h h')+
qed

section \<open>The function and the caller's ledger\<close>

text \<open>
  C8: the function does not mutate the ledger it is given and has no other effect on
  what existed before the call. Whether it returns or raises, every frame object of
  the store is afterwards what it was, the caller's ledger among them; the columns
  \<open>from_n\<close> and \<open>to_n\<close> are written to the copy made by the first statement.
\<close>

theorem ledger_not_mutated:
  assumes "transfers_df < length s"
  shows "snd (infer_team_wallets_from_transfers_st K s transfers_df t c) ! transfers_df =
           s ! transfers_df \<and>
         take (length s) (snd (infer_team_wallets_from_transfers_st K s transfers_df t c)) = s"
  using store_keeps_object [OF assms, of K t c] store_unchanged [of s K transfers_df t c]
  by (simp add: extends_def)

theorem ledger_not_mutated_witness:
  "(0::nat) < length [burn_ledger] \<and>
   snd (infer_team_wallets_from_transfers_st stable_argsort [burn_ledger] 0 (Str ''0xT0'')
     (Str ''0xc1'')) ! 0 = burn_ledger \<and>
   take 1 (snd (infer_team_wallets_from_transfers_st stable_argsort [burn_ledger] 0
     (Str ''0xT0'') (Str ''0xc1''))) = [burn_ledger]"
proof -
  have h: "(0::nat) < length [burn_ledger]" by simp
  show ?thesis
    using h ledger_not_mutated [OF h, of stable_argsort "Str ''0xT0''" "Str ''0xc1''"]
    by simp
qed

text \<open>
  C7: the function is deterministic. A second invocation with the same ledger, token
  contract address and creator address, run in the store the first one left, gives the
  caller the same Team Address Set and an Evidence Table with the same rows in the same
  order, or the same exception.
\<close>

theorem rerun_same_result:
  assumes "transfers_df < length s"
  shows "returned (infer_team_wallets_from_transfers_st K
           (snd (infer_team_wallets_from_transfers_st K s transfers_df t c)) transfers_df t c) =
         returned (infer_team_wallets_from_transfers_st K s transfers_df t c)"
  by (simp add: returned_infer store_keeps_object [OF assms])

theorem rerun_same_result_witness:
  "(0::nat) < length [burn_ledger] \<and>
   returned (infer_team_wallets_from_transfers_st stable_argsort
     (snd (infer_team_wallets_from_transfers_st stable_argsort [burn_ledger] 0 (Str ''0xT0'')
        (Str ''0xc1''))) 0 (Str ''0xT0'') (Str ''0xc1'')) =
   returned (infer_team_wallets_from_transfers_st stable_argsort [burn_ledger] 0 (Str ''0xT0'')
     (Str ''0xc1'')) \<and>
   returned (infer_team_wallets_from_transfers_st stable_argsort [burn_ledger] 0 (Str ''0xT0'')
     (Str ''0xc1'')) =
   Inr ({Str ''0xa1''},
        \<lparr>columns = evidence_columns,
         rows = [project (transfer (Str ''t2'') (Str ''h2'') (Str ''0xC1'') (Str ''0xA1'') (Num 5))]\<rparr>)"
proof -
  have h: "(0::nat) < length [burn_ledger]" by simp
  have r: "returned (infer_team_wallets_from_transfers_st stable_argsort [burn_ledger] 0
      (Str ''0xT0'') (Str ''0xc1'')) =
    Inr ({Str ''0xa1''},
        \<lparr>columns = evidence_columns,
         rows = [project (transfer (Str ''t2'') (Str ''h2'') (Str ''0xC1'') (Str ''0xA1'') (Num 5))]\<rparr>)"
    by (simp add: returned_infer burn_ledger_result)
  show ?thesis
    using h r rerun_same_result [OF h, of stable_argsort "Str ''0xT0''" "Str ''0xc1''"]
    by simp
qed

end
